theory Spec2Isabelle
  imports Main "HOL-Library.AList"
begin

section \<open>Expression trees and errors\<close>

text \<open>
  The analysis of \<^verbatim>\<open>sympy/tensor/index_methods.py\<close> walks a sympy expression
  tree. The tree is the tagged union the module dispatches on: an \<^verbatim>\<open>Indexed\<close>
  leaf (base label and its ordered indices), the atoms (\<^verbatim>\<open>is_Atom\<close>: symbols and
  numbers), \<^verbatim>\<open>Mul\<close> and \<^verbatim>\<open>Add\<close> with their \<^verbatim>\<open>args\<close>, and any other
  node (a class name and its \<^verbatim>\<open>args\<close>). The type of indices is a parameter:
  the module only compares and hashes them. The library builds no \<^verbatim>\<open>Mul\<close> or
  \<^verbatim>\<open>Add\<close> without arguments (\<^verbatim>\<open>Mul()\<close> is the number one, \<^verbatim>\<open>Add()\<close> is
  zero); the functions below are nevertheless defined on every tree, and say what the
  code would do there.
\<close>

datatype 'i expr =
    Indexed string "'i list"
  | Symbol string
  | Number int
  | Mul "'i expr list"
  | Add "'i expr list"
  | Other string "'i expr list"

text \<open>
  Every \<^verbatim>\<open>raise\<close> and failing \<^verbatim>\<open>assert\<close> is a value. A message built with
  \<^verbatim>\<open>"..." % x\<close> is kept as the format string and its argument.
  \<^verbatim>\<open>ValueError\<close> is the failing tuple unpacking \<^verbatim>\<open>inds, syms = zip(*inds)\<close> on
  an empty argument list, \<^verbatim>\<open>TypeError\<close> is \<^verbatim>\<open>|=\<close> applied to two lists
  (and \<^verbatim>\<open>reduce\<close> of an empty sequence, which the code never reaches).
\<close>

datatype 'i error =
    AssertionError string 'i
  | IndexConformanceException string "'i expr"
  | NotImplementedError string string
  | ValueError
  | TypeError

section \<open>The index deduplicator\<close>

text \<open>
  \<^verbatim>\<open>_remove_repeated\<close> (the leading underscore is dropped, an Isabelle name
  cannot start with one). The dictionary \<^verbatim>\<open>sum_index\<close> is an association list
  in insertion order; \<^verbatim>\<open>sum_index[i] = 0\<close> and \<^verbatim>\<open>sum_index[i] += 1\<close> are
  \<^const>\<open>AList.update\<close>, which replaces in place or appends. The loop stops at the
  first failing assertion. A Python set is a duplicate-free list, a tuple is a list.
  The iteration order of a hashed container is the interpreter's business; the model
  iterates in insertion order and no theorem below depends on that choice.
\<close>

fun count_indices :: "('a \<times> int) list \<Rightarrow> 'a list \<Rightarrow> 'a error + ('a \<times> int) list" where
  "count_indices sum_index [] = Inr sum_index"
| "count_indices sum_index (i # inds) =
     (case map_of sum_index i of
        Some c \<Rightarrow>
          (if c + 1 = 1 then count_indices (AList.update i (c + 1) sum_index) inds
           else Inl (AssertionError ''Index %s repeated more than twice'' i))
      | None \<Rightarrow> count_indices (AList.update i 0 sum_index) inds)"

definition remove_repeated :: "'a list \<Rightarrow> 'a error + ('a list \<times> 'a list)" where
  "remove_repeated inds =
     (case count_indices [] inds of
        Inl e \<Rightarrow> Inl e
      | Inr sum_index \<Rightarrow>
          Inr (remdups (filter (\<lambda>x. map_of sum_index x = Some 0) inds),
               map fst (filter (\<lambda>(i, c). c \<noteq> 0) sum_index)))"

section \<open>What the module takes from the expression library\<close>

fun is_Atom :: "'i expr \<Rightarrow> bool" where
  "is_Atom (Symbol n) = True"
| "is_Atom (Number c) = True"
| "is_Atom e = False"

fun is_Mul :: "'i expr \<Rightarrow> bool" where
  "is_Mul (Mul args) = True"
| "is_Mul e = False"

fun is_Add :: "'i expr \<Rightarrow> bool" where
  "is_Add (Add args) = True"
| "is_Add e = False"

text \<open>
  Modelled from the spec: \<^verbatim>\<open>as_coeff_terms\<close> is a method of the expression
  library (\<^verbatim>\<open>sympy.core\<close>), which is not among the sources. The spec describes
  it as the decomposition of a Product node into a scalar coefficient and the
  non-scalar factors. sympy keeps the numeric coefficient of a \<^verbatim>\<open>Mul\<close> as its
  first argument, so a leading number is split off and the remaining arguments are
  the factors; any other expression is its own single factor with coefficient one.
\<close>

fun as_coeff_terms :: "'i expr \<Rightarrow> 'i expr \<times> 'i expr list" where
  "as_coeff_terms (Mul (Number c # rest)) = (Number c, rest)"
| "as_coeff_terms (Mul args) = (Number 1, args)"
| "as_coeff_terms e = (Number 1, [e])"

text \<open>
  Modelled from the spec: \<^verbatim>\<open>expr.has(Indexed)\<close>, the containment test of the
  expression library: does the subtree contain any Indexed leaf.
\<close>

fun has_Indexed :: "'i expr \<Rightarrow> bool" where
  "has_Indexed (Indexed b c) = True"
| "has_Indexed (Symbol n) = False"
| "has_Indexed (Number c) = False"
| "has_Indexed (Mul args) = list_ex has_Indexed args"
| "has_Indexed (Add args) = list_ex has_Indexed args"
| "has_Indexed (Other name args) = list_ex has_Indexed args"

text \<open>
  \<^verbatim>\<open>map(f, xs)\<close> over a function that may raise: the results in order, or the
  first exception.
\<close>

fun sequence_results :: "('e + 'a) list \<Rightarrow> 'e + 'a list" where
  "sequence_results [] = Inr []"
| "sequence_results (Inl e # rs) = Inl e"
| "sequence_results (Inr x # rs) =
     (case sequence_results rs of Inl e \<Rightarrow> Inl e | Inr xs \<Rightarrow> Inr (x # xs))"

section \<open>Outer indices\<close>

text \<open>
  A symmetry map is a dictionary from a pair of indices to a sign, again an
  association list. Two dictionaries are equal when they hold the same items.
\<close>

type_synonym 'i symmetry = "(('i \<times> 'i) \<times> int) list"

definition dict_eq :: "('k \<times> 'v) list \<Rightarrow> ('k \<times> 'v) list \<Rightarrow> bool" where
  "dict_eq a b \<longleftrightarrow> set a = set b"

text \<open>
  The symmetry loop of \<^verbatim>\<open>_get_indices_Mul\<close>: \<^verbatim>\<open>for pair in s\<close> is
  \<open>merge_pairs\<close>, \<^verbatim>\<open>for s in syms\<close> folds it over the factors.
\<close>

fun merge_pairs :: "'i symmetry \<Rightarrow> 'i symmetry \<Rightarrow> 'i symmetry" where
  "merge_pairs symmetry [] = symmetry"
| "merge_pairs symmetry ((pair, v) # s) =
     (case map_of symmetry pair of
        Some w \<Rightarrow> merge_pairs (AList.update pair (w * v) symmetry) s
      | None \<Rightarrow> merge_pairs (AList.update pair v symmetry) s)"

definition merge_symmetry :: "'i symmetry list \<Rightarrow> 'i symmetry" where
  "merge_symmetry syms = foldl merge_pairs [] syms"

text \<open>
  \<^verbatim>\<open>reduce(lambda x, y: x!=y or y, syms)\<close> in \<^verbatim>\<open>_get_indices_Add\<close>: the
  accumulator is a dictionary or, once two neighbours differ, the boolean
  \<^verbatim>\<open>True\<close> (which differs from every dictionary). \<open>truthy\<close> is Python's truth
  value: an empty dictionary is false.
\<close>

datatype 'i pyval = Dict "'i symmetry" | PyTrue

fun syms_step :: "'i pyval \<Rightarrow> 'i symmetry \<Rightarrow> 'i pyval" where
  "syms_step (Dict x) y = (if \<not> dict_eq x y then PyTrue else Dict y)"
| "syms_step PyTrue y = PyTrue"

fun truthy :: "'i pyval \<Rightarrow> bool" where
  "truthy (Dict d) = (d \<noteq> [])"
| "truthy PyTrue = True"

text \<open>
  The choice of the Sum's symmetry map, the last lines of \<^verbatim>\<open>_get_indices_Add\<close>:
  \<^verbatim>\<open>if not reduce(...): symmetries = syms[0]\<close>, \<^verbatim>\<open>else: symmetries = {}\<close>.
\<close>

fun Add_symmetries :: "'i symmetry list \<Rightarrow> 'i error + 'i symmetry" where
  "Add_symmetries [] = Inl TypeError"
| "Add_symmetries (s # syms) =
     Inr (if \<not> truthy (foldl syms_step (Dict s) syms) then s else [])"

text \<open>
  \<^verbatim>\<open>get_indices\<close> with its helpers \<^verbatim>\<open>_get_indices_Mul\<close> and
  \<^verbatim>\<open>_get_indices_Add\<close>. The helpers are only ever called on a \<^verbatim>\<open>Mul\<close> and an
  \<^verbatim>\<open>Add\<close>. With \<^verbatim>\<open>return_dummies\<close> the product helper returns a third
  component, without it there is none. \<^verbatim>\<open>zip(*inds)\<close> of no results cannot be
  unpacked into two names: \<^verbatim>\<open>ValueError\<close>.
\<close>

function get_indices :: "'i expr \<Rightarrow> 'i error + ('i list \<times> 'i symmetry)"
  and get_indices_Mul ::
    "'i expr \<Rightarrow> bool \<Rightarrow> 'i error + ('i list \<times> 'i symmetry \<times> 'i list option)"
  and get_indices_Add :: "'i expr \<Rightarrow> 'i error + ('i list \<times> 'i symmetry)"
where
  "get_indices (Indexed b c) =
     (case remove_repeated c of
        Inl e \<Rightarrow> Inl e
      | Inr (inds, dummies) \<Rightarrow> Inr (inds, []))"
| "get_indices (Symbol n) = Inr ([], [])"
| "get_indices (Number c) = Inr ([], [])"
| "get_indices (Mul args) =
     (case get_indices_Mul (Mul args) False of
        Inl e \<Rightarrow> Inl e
      | Inr (inds, symmetry, dummies) \<Rightarrow> Inr (inds, symmetry))"
| "get_indices (Add args) = get_indices_Add (Add args)"
| "get_indices (Other name args) =
     (if \<not> has_Indexed (Other name args) then Inr ([], [])
      else Inl (NotImplementedError ''FIXME: No specialized handling of type %s'' name))"
| "get_indices_Mul (Mul args) return_dummies =
     (case sequence_results (map get_indices (snd (as_coeff_terms (Mul args)))) of
        Inl e \<Rightarrow> Inl e
      | Inr rs \<Rightarrow>
          if rs = [] then Inl ValueError
          else
            (case remove_repeated (concat (map fst rs)) of
               Inl e \<Rightarrow> Inl e
             | Inr (inds, dummies) \<Rightarrow>
                 Inr (inds, merge_symmetry (map snd rs),
                      if return_dummies then Some dummies else None)))"
| "get_indices_Mul (Indexed b c) return_dummies = undefined"
| "get_indices_Mul (Symbol n) return_dummies = undefined"
| "get_indices_Mul (Number c) return_dummies = undefined"
| "get_indices_Mul (Add args) return_dummies = undefined"
| "get_indices_Mul (Other name args) return_dummies = undefined"
| "get_indices_Add (Add args) =
     (case sequence_results (map get_indices args) of
        Inl e \<Rightarrow> Inl e
      | Inr rs \<Rightarrow>
          if rs = [] then Inl ValueError
          else
            (case filter (\<lambda>x. x \<noteq> []) (map fst rs) of
               [] \<Rightarrow> Inr ([], [])
             | n # ns \<Rightarrow>
                 if \<not> list_all (\<lambda>x. set x = set n) ns
                 then Inl (IndexConformanceException ''Indices are not consistent: %s''
                             (Add args))
                 else
                   (case Add_symmetries (map snd rs) of
                      Inl e \<Rightarrow> Inl e
                    | Inr symmetries \<Rightarrow> Inr (n, symmetries))))"
| "get_indices_Add (Indexed b c) = undefined"
| "get_indices_Add (Symbol n) = undefined"
| "get_indices_Add (Number c) = undefined"
| "get_indices_Add (Mul args) = undefined"
| "get_indices_Add (Other name args) = undefined"
  by pat_completeness auto
termination
proof (relation "measure (\<lambda>x. case x of
          Inl e \<Rightarrow> 2 * size e + 1
        | Inr (Inl (e, b)) \<Rightarrow> 2 * size e
        | Inr (Inr e) \<Rightarrow> 2 * size e)")
  show "wf (measure (\<lambda>x. case x of
          Inl e \<Rightarrow> 2 * size e + 1
        | Inr (Inl (e, b)) \<Rightarrow> 2 * size e
        | Inr (Inr e) \<Rightarrow> 2 * size e))"
    by simp
next
  fix args :: "'i expr list"
  show "(Inr (Inl (Mul args, False)), Inl (Mul args)) \<in> measure (\<lambda>x. case x of
          Inl e \<Rightarrow> 2 * size e + 1
        | Inr (Inl (e, b)) \<Rightarrow> 2 * size e
        | Inr (Inr e) \<Rightarrow> 2 * size e)"
    by simp
next
  fix args :: "'i expr list"
  show "(Inr (Inr (Add args)), Inl (Add args)) \<in> measure (\<lambda>x. case x of
          Inl e \<Rightarrow> 2 * size e + 1
        | Inr (Inl (e, b)) \<Rightarrow> 2 * size e
        | Inr (Inr e) \<Rightarrow> 2 * size e)"
    by simp
next
  fix args :: "'i expr list" and return_dummies :: bool and x :: "'i expr"
  assume x: "x \<in> set (snd (as_coeff_terms (Mul args)))"
  have "set (snd (as_coeff_terms (Mul args))) \<subseteq> set args"
    by (cases "(Mul args)" rule: as_coeff_terms.cases) auto
  with x have "x \<in> set args" by blast
  then have "size x \<le> size_list size args" by (rule size_list_estimation') simp
  then show "(Inl x, Inr (Inl (Mul args, return_dummies))) \<in> measure (\<lambda>x. case x of
          Inl e \<Rightarrow> 2 * size e + 1
        | Inr (Inl (e, b)) \<Rightarrow> 2 * size e
        | Inr (Inr e) \<Rightarrow> 2 * size e)"
    by simp
next
  fix args :: "'i expr list" and x :: "'i expr"
  assume "x \<in> set args"
  then have "size x \<le> size_list size args" by (rule size_list_estimation') simp
  then show "(Inl x, Inr (Inr (Add args))) \<in> measure (\<lambda>x. case x of
          Inl e \<Rightarrow> 2 * size e + 1
        | Inr (Inl (e, b)) \<Rightarrow> 2 * size e
        | Inr (Inr e) \<Rightarrow> 2 * size e)"
    by simp
qed

text \<open>
  The public entry point also accepts \<^verbatim>\<open>None\<close>. The constructors of the
  expression library reject \<^verbatim>\<open>None\<close> as an argument, so it never is a child
  of a node and the test \<^verbatim>\<open>expr is None\<close> only matters at the top.
\<close>

definition get_indices_or_None ::
  "'i expr option \<Rightarrow> 'i error + ('i list \<times> 'i symmetry)" where
  "get_indices_or_None expr = (case expr of None \<Rightarrow> Inr ([], []) | Some e \<Rightarrow> get_indices e)"

section \<open>Contraction structure\<close>

text \<open>
  The dictionary returned by \<^verbatim>\<open>get_contraction_structure\<close>: a key is
  \<^verbatim>\<open>None\<close>, a tuple of dummy indices or an expression; a value is a set of
  expressions or, under an expression key, the list of the structures of that
  product's \<^verbatim>\<open>Add\<close> factors. \<^verbatim>\<open>key or None\<close> turns the empty tuple into
  \<^verbatim>\<open>None\<close>.
\<close>

datatype 'i key = KNone | KTuple "'i list" | KExpr "'i expr"

datatype 'i entry =
    ExprSet "'i expr set"
  | StructList "('i key \<times> 'i entry) list list"

type_synonym 'i contraction = "('i key \<times> 'i entry) list"

definition key_or_None :: "'i list \<Rightarrow> 'i key" where
  "key_or_None key = (if key = [] then KNone else KTuple key)"

text \<open>
  \<^verbatim>\<open>result[key] |= d[key]\<close>: the union of two sets; \<^verbatim>\<open>|=\<close> is not defined
  when an operand is a list.
\<close>

fun ior :: "'i entry \<Rightarrow> 'i entry \<Rightarrow> 'i error + 'i entry" where
  "ior (ExprSet a) (ExprSet b) = Inr (ExprSet (a \<union> b))"
| "ior (ExprSet a) (StructList b) = Inl TypeError"
| "ior (StructList a) v = Inl TypeError"

text \<open>
  The two loops of the \<^verbatim>\<open>Add\<close> branch. \<open>merge_keys\<close> is \<^verbatim>\<open>for key in d\<close>.
  \<open>merge_terms\<close> is \<^verbatim>\<open>for term in expr.args\<close>: it takes the results of the
  recursive calls in order and stops at the first one that raised, or at the first
  failing merge, whichever the loop meets first.
\<close>

fun merge_keys :: "'i contraction \<Rightarrow> 'i contraction \<Rightarrow> 'i error + 'i contraction" where
  "merge_keys result [] = Inr result"
| "merge_keys result ((key, v) # d) =
     (case map_of result key of
        Some w \<Rightarrow>
          (case ior w v of
             Inl e \<Rightarrow> Inl e
           | Inr u \<Rightarrow> merge_keys (AList.update key u result) d)
      | None \<Rightarrow> merge_keys (AList.update key v result) d)"

fun merge_terms ::
  "'i contraction \<Rightarrow> ('i error + 'i contraction) list \<Rightarrow> 'i error + 'i contraction" where
  "merge_terms result [] = Inr result"
| "merge_terms result (Inl e # ds) = Inl e"
| "merge_terms result (Inr d # ds) =
     (case merge_keys result d of
        Inl e \<Rightarrow> Inl e
      | Inr result' \<Rightarrow> merge_terms result' ds)"

text \<open>
  \<^verbatim>\<open>get_contraction_structure\<close>. Unpacking a result of \<^verbatim>\<open>_get_indices_Mul\<close>
  without dummies into three names would be a \<^verbatim>\<open>ValueError\<close>; the call passes
  \<^verbatim>\<open>return_dummies=True\<close>, so that branch is never taken.
\<close>

fun get_contraction_structure :: "'i expr \<Rightarrow> 'i error + 'i contraction" where
  "get_contraction_structure (Indexed b c) =
     (case remove_repeated c of
        Inl e \<Rightarrow> Inl e
      | Inr (junk, key) \<Rightarrow> Inr [(key_or_None key, ExprSet {Indexed b c})])"
| "get_contraction_structure (Symbol n) = Inr [(KNone, ExprSet {Symbol n})]"
| "get_contraction_structure (Number c) = Inr [(KNone, ExprSet {Number c})]"
| "get_contraction_structure (Mul args) =
     (case get_indices_Mul (Mul args) True of
        Inl e \<Rightarrow> Inl e
      | Inr (junk, junk', None) \<Rightarrow> Inl ValueError
      | Inr (junk, junk', Some key) \<Rightarrow>
          if filter is_Add args = [] then Inr [(key_or_None key, ExprSet {Mul args})]
          else
            (case sequence_results (map get_contraction_structure (filter is_Add args)) of
               Inl e \<Rightarrow> Inl e
             | Inr ds \<Rightarrow>
                 Inr (AList.update (KExpr (Mul args)) (StructList ds)
                        [(key_or_None key, ExprSet {Mul args})])))"
| "get_contraction_structure (Add args) =
     merge_terms [] (map get_contraction_structure args)"
| "get_contraction_structure (Other name args) =
     (if \<not> has_Indexed (Other name args) then Inr [(KNone, ExprSet {Other name args})]
      else Inl (NotImplementedError ''FIXME: No specialized handling of type %s'' name))"

section \<open>Notions used to state the claims\<close>

text \<open>
  The index positions of a multiplicative scope as the data model's invariant words
  it: the index list of a single Indexed leaf, or the index lists of a Product
  node's leaf factors taken together. This follows the sentence of the
  specification, not the code; it only serves to compare the two counts.
\<close>

fun leaf_indices :: "'i expr \<Rightarrow> 'i list" where
  "leaf_indices (Indexed b c) = c"
| "leaf_indices e = []"

fun scope_indices :: "'i expr \<Rightarrow> 'i list" where
  "scope_indices (Mul args) = concat (map leaf_indices args)"
| "scope_indices e = leaf_indices e"

text \<open>
  Reading a contraction structure: the value set under a key (empty when the key
  is absent or holds a list), and the expression keys of a structure.
\<close>

definition value_set :: "'i contraction \<Rightarrow> 'i key \<Rightarrow> 'i expr set" where
  "value_set d k = (case map_of d k of Some (ExprSet s) \<Rightarrow> s | _ \<Rightarrow> {})"

fun is_KExpr :: "'i key \<Rightarrow> bool" where
  "is_KExpr (KExpr e) = True"
| "is_KExpr k = False"

definition expr_keys :: "'i contraction \<Rightarrow> 'i key list" where
  "expr_keys d = filter is_KExpr (map fst d)"

section \<open>Invariants used in the proofs\<close>

text \<open>
  How often the loop of the deduplicator has seen a key, read off the dictionary,
  and the invariant of that dictionary: a count is 0 or 1.
\<close>

definition seen :: "('a \<times> int) list \<Rightarrow> 'a \<Rightarrow> int" where
  "seen d k = (case map_of d k of None \<Rightarrow> 0 | Some c \<Rightarrow> c + 1)"

definition counts_ok :: "('a \<times> int) list \<Rightarrow> bool" where
  "counts_ok d \<longleftrightarrow> distinct (map fst d) \<and> (\<forall>k c. map_of d k = Some c \<longrightarrow> c = 0 \<or> c = 1)"

text \<open>
  What the structures returned by \<^verbatim>\<open>get_contraction_structure\<close> have in
  common: an expression key holds a list, every other key holds a set. \<open>combine\<close>
  is the value one key has after \<^verbatim>\<open>for key in d\<close>.
\<close>

fun is_StructList :: "'i entry \<Rightarrow> bool" where
  "is_StructList (StructList l) = True"
| "is_StructList (ExprSet s) = False"

definition typed :: "'i contraction \<Rightarrow> bool" where
  "typed d \<longleftrightarrow> (\<forall>k v. map_of d k = Some v \<longrightarrow> (is_KExpr k \<longleftrightarrow> is_StructList v))"

fun combine :: "'i entry option \<Rightarrow> 'i entry option \<Rightarrow> 'i entry option" where
  "combine x None = x"
| "combine None (Some v) = Some v"
| "combine (Some w) (Some v) = (case ior w v of Inr u \<Rightarrow> Some u | Inl e \<Rightarrow> Some w)"

section \<open>Properties of the deduplicator\<close>

lemma counts_ok_Nil: "counts_ok []"
  by (simp add: counts_ok_def)

lemma seen_Nil: "seen [] k = 0"
  by (simp add: seen_def)

lemma seen_update_new:
  "map_of d i = None \<Longrightarrow> seen (AList.update i 0 d) k = seen d k + (if i = k then 1 else 0)"
  by (auto simp: seen_def update_conv')

lemma seen_update_old:
  "map_of d i = Some c \<Longrightarrow>
   seen (AList.update i (c + 1) d) k = seen d k + (if i = k then 1 else 0)"
  by (auto simp: seen_def update_conv')

lemma counts_ok_update_new: "counts_ok d \<Longrightarrow> counts_ok (AList.update i 0 d)"
  by (auto simp: counts_ok_def update_conv' distinct_update)

lemma counts_ok_update_old:
  "counts_ok d \<Longrightarrow> map_of d i = Some 0 \<Longrightarrow> counts_ok (AList.update i 1 d)"
  by (auto simp: counts_ok_def update_conv' distinct_update)

lemma count_indices_Inr:
  "counts_ok d \<Longrightarrow> count_indices d xs = Inr d' \<Longrightarrow>
   counts_ok d' \<and> (\<forall>k. seen d' k = seen d k + int (count_list xs k))"
proof (induction xs arbitrary: d)
  case Nil
  then show ?case by simp
next
  case (Cons i xs)
  show ?case
  proof (cases "map_of d i")
    case None
    with Cons.prems have r: "count_indices (AList.update i 0 d) xs = Inr d'"
      by simp
    from Cons.IH [OF counts_ok_update_new [OF Cons.prems(1)] r] None
    show ?thesis by (auto simp: seen_update_new)
  next
    case (Some c)
    with Cons.prems have c: "c = 0" and r: "count_indices (AList.update i 1 d) xs = Inr d'"
      by (auto split: if_splits)
    from Some c have s: "map_of d i = Some 0" by simp
    from Cons.IH [OF counts_ok_update_old [OF Cons.prems(1) s] r] seen_update_old [OF s]
    show ?thesis by auto
  qed
qed

lemma count_indices_succeeds:
  "counts_ok d \<Longrightarrow> \<forall>k. seen d k + int (count_list xs k) \<le> 2 \<Longrightarrow>
   \<exists>d'. count_indices d xs = Inr d'"
proof (induction xs arbitrary: d)
  case Nil
  then show ?case by simp
next
  case (Cons i xs)
  show ?case
  proof (cases "map_of d i")
    case None
    have "\<forall>k. seen (AList.update i 0 d) k + int (count_list xs k) \<le> 2"
    proof
      fix k
      from Cons.prems(2) have "seen d k + int (count_list (i # xs) k) \<le> 2" by blast
      then show "seen (AList.update i 0 d) k + int (count_list xs k) \<le> 2"
        using None by (simp add: seen_update_new split: if_splits)
    qed
    from Cons.IH [OF counts_ok_update_new [OF Cons.prems(1)] this] None
    show ?thesis by simp
  next
    case (Some c)
    from Cons.prems(1) Some have "c = 0 \<or> c = 1" by (simp add: counts_ok_def)
    moreover from Cons.prems(2) have "seen d i + int (count_list (i # xs) i) \<le> 2" by blast
    ultimately have c: "c = 0" using Some by (simp add: seen_def)
    with Some have s: "map_of d i = Some 0" by simp
    have "\<forall>k. seen (AList.update i 1 d) k + int (count_list xs k) \<le> 2"
    proof
      fix k
      from Cons.prems(2) have "seen d k + int (count_list (i # xs) k) \<le> 2" by blast
      then show "seen (AList.update i 1 d) k + int (count_list xs k) \<le> 2"
        using seen_update_old [OF s, of k] by (simp split: if_splits)
    qed
    from Cons.IH [OF counts_ok_update_old [OF Cons.prems(1) s] this] s
    show ?thesis by simp
  qed
qed

lemma count_indices_fails:
  "counts_ok d \<Longrightarrow> count_indices d xs = Inl e \<Longrightarrow>
   \<exists>k. e = AssertionError ''Index %s repeated more than twice'' k \<and>
        3 \<le> seen d k + int (count_list xs k)"
proof (induction xs arbitrary: d)
  case Nil
  then show ?case by simp
next
  case (Cons i xs)
  show ?case
  proof (cases "map_of d i")
    case None
    with Cons.prems have r: "count_indices (AList.update i 0 d) xs = Inl e"
      by simp
    from Cons.IH [OF counts_ok_update_new [OF Cons.prems(1)] r] obtain k where
      "e = AssertionError ''Index %s repeated more than twice'' k"
      "3 \<le> seen (AList.update i 0 d) k + int (count_list xs k)" by blast
    then show ?thesis using None by (auto simp: seen_update_new)
  next
    case (Some c)
    from Cons.prems(1) Some have c01: "c = 0 \<or> c = 1" by (simp add: counts_ok_def)
    show ?thesis
    proof (cases "c = 0")
      case True
      with Some have s: "map_of d i = Some 0" by simp
      with Cons.prems have r: "count_indices (AList.update i 1 d) xs = Inl e" by simp
      from Cons.IH [OF counts_ok_update_old [OF Cons.prems(1) s] r] obtain k where
        "e = AssertionError ''Index %s repeated more than twice'' k"
        "3 \<le> seen (AList.update i 1 d) k + int (count_list xs k)" by blast
      then show ?thesis using seen_update_old [OF s] by auto
    next
      case False
      with c01 have c: "c = 1" by simp
      with Some Cons.prems have "e = AssertionError ''Index %s repeated more than twice'' i"
        by simp
      moreover have "3 \<le> seen d i + int (count_list (i # xs) i)"
        using Some c by (simp add: seen_def)
      ultimately show ?thesis by blast
    qed
  qed
qed

lemma distinct_count_list: "distinct ys \<longleftrightarrow> (\<forall>a. count_list ys a \<le> 1)"
proof (induction ys)
  case Nil
  then show ?case by simp
next
  case (Cons y ys)
  show ?case
  proof
    assume d: "distinct (y # ys)"
    with Cons have "\<forall>a. count_list ys a \<le> 1" by simp
    moreover from d have "count_list ys y = 0" by simp
    ultimately show "\<forall>a. count_list (y # ys) a \<le> 1" by auto
  next
    assume a: "\<forall>a. count_list (y # ys) a \<le> 1"
    have "count_list ys y = 0" using a [rule_format, of y] by simp
    then have "y \<notin> set ys" by (simp add: count_list_0_iff)
    moreover have "\<forall>b. count_list ys b \<le> 1"
    proof
      fix b
      show "count_list ys b \<le> 1" using a [rule_format, of b] by (simp split: if_splits)
    qed
    ultimately show "distinct (y # ys)" using Cons by simp
  qed
qed

lemma count_list_filter:
  "count_list (filter P xs) a = (if P a then count_list xs a else 0)"
  by (induction xs) auto

lemma distinct_filter_once: "distinct (filter (\<lambda>x. count_list xs x = 1) xs)"
  by (simp add: distinct_count_list count_list_filter)

lemma seen_values:
  "counts_ok d \<Longrightarrow> (map_of d k = Some 0 \<longleftrightarrow> seen d k = 1) \<and>
     (map_of d k = Some 1 \<longleftrightarrow> seen d k = 2) \<and> seen d k \<le> 2 \<and> 0 \<le> seen d k"
proof -
  assume "counts_ok d"
  then have v: "\<And>c. map_of d k = Some c \<Longrightarrow> c = 0 \<or> c = 1"
    unfolding counts_ok_def by blast
  show ?thesis
  proof (cases "map_of d k")
    case None
    then show ?thesis by (simp add: seen_def)
  next
    case (Some c)
    with v [OF Some] show ?thesis by (auto simp: seen_def)
  qed
qed

lemma dummies_set:
  assumes "counts_ok d"
  shows "set (map fst (filter (\<lambda>(i, c). c \<noteq> 0) d)) = {k. seen d k = 2}"
proof -
  from assms have dist: "distinct (map fst d)" by (simp add: counts_ok_def)
  have "k \<in> set (map fst (filter (\<lambda>(i, c). c \<noteq> 0) d)) \<longleftrightarrow> seen d k = 2" for k
  proof
    assume "k \<in> set (map fst (filter (\<lambda>(i, c). c \<noteq> 0) d))"
    then obtain c where "(k, c) \<in> set d" "c \<noteq> 0" by auto
    with dist have "map_of d k = Some c" by simp
    moreover from assms this have "c = 0 \<or> c = 1" unfolding counts_ok_def by blast
    ultimately have "map_of d k = Some 1" using \<open>c \<noteq> 0\<close> by simp
    with assms show "seen d k = 2" by (simp add: seen_values)
  next
    assume "seen d k = 2"
    with assms have "map_of d k = Some 1" by (simp add: seen_values)
    then have "(k, 1) \<in> set d" by (rule map_of_SomeD)
    then have "(k, 1) \<in> set (filter (\<lambda>(i, c). c \<noteq> 0) d)" by simp
    then show "k \<in> set (map fst (filter (\<lambda>(i, c). c \<noteq> 0) d))" by force
  qed
  then show ?thesis by blast
qed

lemma dummies_distinct:
  "counts_ok d \<Longrightarrow> distinct (map fst (filter (\<lambda>(i, c). c \<noteq> 0) d))"
  by (simp add: counts_ok_def distinct_map_filter)

lemma remove_repeated_returns:
  assumes "\<forall>k. count_list xs k \<le> 2"
  shows "\<exists>twice. remove_repeated xs = Inr (filter (\<lambda>x. count_list xs x = 1) xs, twice) \<and>
           set twice = {k. count_list xs k = 2} \<and> distinct twice"
proof -
  have "\<forall>k. seen [] k + int (count_list xs k) \<le> 2"
    using assms by (simp add: seen_Nil)
  from count_indices_succeeds [OF counts_ok_Nil this]
  obtain d where d: "count_indices [] xs = Inr d" by blast
  from count_indices_Inr [OF counts_ok_Nil d]
  have ok: "counts_ok d" and s: "\<And>k. seen d k = int (count_list xs k)"
    by (simp_all add: seen_Nil)
  have f: "filter (\<lambda>x. map_of d x = Some 0) xs = filter (\<lambda>x. count_list xs x = 1) xs"
    by (rule filter_cong) (simp_all add: seen_values [OF ok] s)
  have "remove_repeated xs =
      Inr (filter (\<lambda>x. count_list xs x = 1) xs, map fst (filter (\<lambda>(i, c). c \<noteq> 0) d))"
    using distinct_filter_once [of xs] by (simp add: remove_repeated_def d f)
  moreover have "set (map fst (filter (\<lambda>(i, c). c \<noteq> 0) d)) = {k. count_list xs k = 2}"
    by (simp only: dummies_set [OF ok] s) simp
  ultimately show ?thesis using dummies_distinct [OF ok] by blast
qed

lemma remove_repeated_raises:
  assumes "3 \<le> count_list xs k"
  shows "\<exists>j. remove_repeated xs = Inl (AssertionError ''Index %s repeated more than twice'' j) \<and>
           3 \<le> count_list xs j"
proof (cases "count_indices [] xs")
  case (Inl e)
  from count_indices_fails [OF counts_ok_Nil Inl] obtain j where
    "e = AssertionError ''Index %s repeated more than twice'' j" "3 \<le> count_list xs j"
    by (auto simp: seen_Nil)
  with Inl show ?thesis by (auto simp: remove_repeated_def)
next
  case (Inr d)
  from count_indices_Inr [OF counts_ok_Nil Inr]
  have ok: "counts_ok d" and s: "seen d k = int (count_list xs k)"
    by (simp_all add: seen_Nil)
  from seen_values [OF ok, of k] s assms show ?thesis by simp
qed

lemma remove_repeated_Inr_counts:
  "remove_repeated xs = Inr r \<Longrightarrow> count_list xs k \<le> 2"
  using remove_repeated_raises [of xs k] by (cases "3 \<le> count_list xs k") auto

section \<open>Claims about the deduplicator\<close>

text \<open>
  C7. For every index sequence in which no element occurs three or more times,
  \<^verbatim>\<open>_remove_repeated\<close> returns a once-set and a twice-tuple: the once-set holds
  exactly the elements that occur once, the twice-tuple holds exactly the elements
  that occur twice, each one time. Hence together they hold exactly the elements of
  the sequence, and they have no element in common.
\<close>

theorem remove_repeated_partition:
  assumes "\<forall>x. count_list inds x < 3"
  shows "\<exists>once twice. remove_repeated inds = Inr (once, twice) \<and>
           set once = {x. count_list inds x = 1} \<and> distinct once \<and>
           set twice = {x. count_list inds x = 2} \<and> distinct twice \<and>
           set once \<union> set twice = set inds \<and> set once \<inter> set twice = {}"
proof -
  from assms have le: "\<forall>k. count_list inds k \<le> 2"
    by (auto simp: less_Suc_eq_le numeral_3_eq_3 numeral_2_eq_2)
  define once where "once = filter (\<lambda>x. count_list inds x = 1) inds"
  from remove_repeated_returns [OF le] obtain twice where
    r: "remove_repeated inds = Inr (once, twice)" and
    t: "set twice = {k. count_list inds k = 2}" and
    dt: "distinct twice"
    unfolding once_def by blast
  have o: "set once = {x. count_list inds x = 1}"
  proof (rule set_eqI)
    fix x
    have "count_list inds x = 1 \<Longrightarrow> x \<in> set inds"
      using count_list_0_iff [of inds x] by auto
    then show "x \<in> set once \<longleftrightarrow> x \<in> {x. count_list inds x = 1}"
      by (auto simp: once_def)
  qed
  have d: "distinct once"
    unfolding once_def by (rule distinct_filter_once)
  have u: "set once \<union> set twice = set inds"
  proof (rule set_eqI)
    fix x
    show "x \<in> set once \<union> set twice \<longleftrightarrow> x \<in> set inds"
    proof
      assume "x \<in> set once \<union> set twice"
      with o t have "count_list inds x \<noteq> 0" by auto
      then show "x \<in> set inds" by (simp add: count_list_0_iff)
    next
      assume "x \<in> set inds"
      then have "count_list inds x \<noteq> 0" by (simp add: count_list_0_iff)
      moreover from le have "count_list inds x \<le> 2" by blast
      ultimately have "count_list inds x = 1 \<or> count_list inds x = 2" by arith
      with o t show "x \<in> set once \<union> set twice" by auto
    qed
  qed
  have i: "set once \<inter> set twice = {}"
    using o t by auto
  from r o d t dt u i show ?thesis by (intro exI [of _ once] exI [of _ twice] conjI)
qed

theorem remove_repeated_partition_witness:
  "(\<forall>x. count_list [1, 2, 3, 2 :: nat] x < 3) \<and>
   remove_repeated [1, 2, 3, 2 :: nat] = Inr ([1, 3], [2]) \<and>
   (\<exists>once twice. remove_repeated [1, 2, 3, 2 :: nat] = Inr (once, twice) \<and>
      set once = {x. count_list [1, 2, 3, 2 :: nat] x = 1} \<and> distinct once \<and>
      set twice = {x. count_list [1, 2, 3, 2 :: nat] x = 2} \<and> distinct twice \<and>
      set once \<union> set twice = set [1, 2, 3, 2] \<and> set once \<inter> set twice = {})"
proof -
  have h: "\<forall>x. count_list [1, 2, 3, 2 :: nat] x < 3" by simp
  have v: "remove_repeated [1, 2, 3, 2 :: nat] = Inr ([1, 3], [2])"
    by (simp add: remove_repeated_def)
  from h v remove_repeated_partition [OF h] show ?thesis by (intro conjI)
qed

section \<open>Properties of the outer-index resolver\<close>

lemma sequence_results_map_Inr: "sequence_results (map Inr xs) = Inr xs"
  by (induction xs) simp_all

lemma sequence_results_Inr: "sequence_results rs = Inr xs \<Longrightarrow> rs = map Inr xs"
proof (induction rs arbitrary: xs)
  case Nil
  then show ?case by simp
next
  case (Cons r rs)
  then show ?case by (cases r) (auto split: sum.splits)
qed

lemma sequence_results_Inr_iff: "sequence_results rs = Inr xs \<longleftrightarrow> rs = map Inr xs"
  using sequence_results_Inr sequence_results_map_Inr by blast

lemma map_eq_map_Inr_member:
  "map f xs = map Inr rs \<Longrightarrow> r \<in> set rs \<Longrightarrow> \<exists>x\<in>set xs. f x = Inr r"
proof (induction xs arbitrary: rs)
  case Nil
  then show ?case by simp
next
  case (Cons x xs)
  then show ?case by (cases rs) auto
qed

lemma merge_symmetry_empty: "\<forall>s\<in>set syms. s = [] \<Longrightarrow> merge_symmetry syms = []"
proof -
  have "\<forall>s\<in>set syms. s = [] \<Longrightarrow> foldl merge_pairs acc syms = acc" for acc :: "'a symmetry"
    by (induction syms arbitrary: acc) simp_all
  then show "\<forall>s\<in>set syms. s = [] \<Longrightarrow> merge_symmetry syms = []"
    by (simp add: merge_symmetry_def)
qed

lemma foldl_syms_step_PyTrue: "foldl syms_step PyTrue syms = PyTrue"
  by (induction syms) simp_all

lemma dict_eq_Nil: "dict_eq a [] \<longleftrightarrow> a = []"
  by (simp add: dict_eq_def)

lemma reduce_syms_falsy:
  "\<not> truthy (foldl syms_step (Dict s) syms) \<longleftrightarrow> s = [] \<and> (\<forall>t\<in>set syms. t = [])"
proof (induction syms arbitrary: s)
  case Nil
  then show ?case by simp
next
  case (Cons t syms)
  show ?case
  proof (cases "dict_eq s t")
    case True
    then have "foldl syms_step (Dict s) (t # syms) = foldl syms_step (Dict t) syms" by simp
    moreover from True have "t = [] \<longrightarrow> s = []" by (auto simp: dict_eq_def)
    moreover from True have "s = [] \<longrightarrow> t = []" by (auto simp: dict_eq_def)
    ultimately show ?thesis using Cons.IH [of t] by auto
  next
    case False
    then have "foldl syms_step (Dict s) (t # syms) = PyTrue"
      by (simp add: foldl_syms_step_PyTrue)
    moreover from False have "\<not> (s = [] \<and> t = [])" by (auto simp: dict_eq_def)
    ultimately show ?thesis by auto
  qed
qed

lemma Add_symmetries_Cons: "Add_symmetries (s # syms) = Inr []"
  using reduce_syms_falsy [of s syms] by auto

lemma Add_symmetries_nonempty: "syms \<noteq> [] \<Longrightarrow> Add_symmetries syms = Inr []"
  by (cases syms) (simp_all add: Add_symmetries_Cons del: Add_symmetries.simps)

lemma symmetry_empty_aux:
  fixes e e' e'' :: "'i expr"
  shows "\<forall>s sy. get_indices e = Inr (s, sy) \<longrightarrow> sy = []"
  and "\<forall>s sy d. is_Mul e' \<longrightarrow> get_indices_Mul e' rd = Inr (s, sy, d) \<longrightarrow> sy = []"
  and "\<forall>s sy. is_Add e'' \<longrightarrow> get_indices_Add e'' = Inr (s, sy) \<longrightarrow> sy = []"
proof (induction e and e' rd and e'' rule: get_indices_get_indices_Mul_get_indices_Add.induct)
  case (1 b c)
  then show ?case by (auto split: sum.splits)
next
  case (4 args)
  then show ?case by (auto split: sum.splits)
next
  case (5 args)
  then show ?case by simp
next
  case (6 name args)
  then show ?case by (auto split: if_splits)
next
  case (7 args return_dummies)
  show ?case
  proof (intro allI impI)
    fix s sy d
    assume r: "get_indices_Mul (Mul args) return_dummies = Inr (s, sy, d)"
    then obtain rs where rs: "sequence_results (map get_indices (snd (as_coeff_terms (Mul args)))) = Inr rs"
      by (auto split: sum.splits)
    then have m: "map get_indices (snd (as_coeff_terms (Mul args))) = map Inr rs"
      by (rule sequence_results_Inr)
    have "\<forall>x\<in>set (map snd rs). x = []"
    proof
      fix x assume "x \<in> set (map snd rs)"
      then obtain a where a: "(a, x) \<in> set rs" by auto
      from map_eq_map_Inr_member [OF m a] obtain f where
        "f \<in> set (snd (as_coeff_terms (Mul args)))" "get_indices f = Inr (a, x)" by blast
      with "7.IH" show "x = []" by blast
    qed
    then have "merge_symmetry (map snd rs) = []" by (rule merge_symmetry_empty)
    with r rs show "sy = []" by (auto split: sum.splits if_splits)
  qed
next
  case (13 args)
  show ?case
  proof (intro allI impI)
    fix s sy
    assume r: "get_indices_Add (Add args) = Inr (s, sy)"
    then obtain rs where rs: "sequence_results (map get_indices args) = Inr rs"
      by (auto split: sum.splits)
    then have m: "map get_indices args = map Inr rs"
      by (rule sequence_results_Inr)
    from r rs have ne: "rs \<noteq> []" by (auto split: if_splits)
    then have "Add_symmetries (map snd rs) = Inr []" by (simp add: Add_symmetries_nonempty)
    with r rs ne show "sy = []" by (auto split: list.splits if_splits)
  qed
qed simp_all

lemma get_indices_symmetry: "get_indices e = Inr (s, sy) \<Longrightarrow> sy = []"
  using symmetry_empty_aux(1) by blast


lemma results_symmetry_empty:
  assumes "map get_indices xs = map Inr rs"
  shows "\<forall>s\<in>set (map snd rs). s = []"
proof
  fix s assume "s \<in> set (map snd rs)"
  then obtain a where a: "(a, s) \<in> set rs" by auto
  from map_eq_map_Inr_member [OF assms a] obtain x where "get_indices x = Inr (a, s)" by blast
  then show "s = []" by (rule get_indices_symmetry)
qed

lemma get_indices_Mul_factors:
  assumes "map get_indices (snd (as_coeff_terms (Mul args))) = map Inr rs" and "rs \<noteq> []"
  shows "get_indices_Mul (Mul args) rd =
    (case remove_repeated (concat (map fst rs)) of
       Inl e \<Rightarrow> Inl e
     | Inr (inds, dummies) \<Rightarrow> Inr (inds, [], if rd then Some dummies else None))"
  using assms merge_symmetry_empty [OF results_symmetry_empty [OF assms(1)]]
  by (simp add: sequence_results_map_Inr split: sum.splits)

lemma factors_results:
  assumes "map get_indices args = map Inr rs"
  shows "\<exists>rs'. map get_indices (snd (as_coeff_terms (Mul args))) = map Inr rs' \<and>
           concat (map fst rs') = concat (map fst rs)"
proof (cases "Mul args" rule: as_coeff_terms.cases)
  case (1 c rest)
  with assms obtain r rs' where rs: "rs = r # rs'" "get_indices (Number c) = Inr r"
    "map get_indices rest = map Inr rs'"
    by (cases rs) auto
  then have "fst r = []" by auto
  with rs 1 show ?thesis by auto
qed (use assms in auto)

lemma get_indices_Mul_args:
  assumes "map get_indices args = map Inr rs" and "snd (as_coeff_terms (Mul args)) \<noteq> []"
  shows "get_indices_Mul (Mul args) rd =
    (case remove_repeated (concat (map fst rs)) of
       Inl e \<Rightarrow> Inl e
     | Inr (inds, dummies) \<Rightarrow> Inr (inds, [], if rd then Some dummies else None))"
proof -
  from factors_results [OF assms(1)] obtain rs' where
    m: "map get_indices (snd (as_coeff_terms (Mul args))) = map Inr rs'" and
    c: "concat (map fst rs') = concat (map fst rs)" by blast
  from m assms(2) have "rs' \<noteq> []" by auto
  from get_indices_Mul_factors [OF m this, of rd] c show ?thesis by simp
qed

lemma get_indices_Add_results:
  assumes "map get_indices args = map Inr rs" and "rs \<noteq> []"
  shows "get_indices (Add args) =
    (case filter (\<lambda>x. x \<noteq> []) (map fst rs) of
       [] \<Rightarrow> Inr ([], [])
     | n # ns \<Rightarrow>
         if \<not> list_all (\<lambda>x. set x = set n) ns
         then Inl (IndexConformanceException ''Indices are not consistent: %s'' (Add args))
         else Inr (n, []))"
proof -
  from assms(2) have "Add_symmetries (map snd rs) = Inr []"
    by (simp add: Add_symmetries_nonempty)
  with assms show ?thesis
    by (simp add: sequence_results_map_Inr split: list.splits)
qed

lemma get_indices_Add_empty: "get_indices (Add []) = Inl ValueError"
  by simp

lemma non_scalars_member:
  "x \<in> set (filter (\<lambda>x. x \<noteq> []) (map fst rs)) \<longleftrightarrow> (\<exists>a\<in>set rs. fst a = x) \<and> x \<noteq> []"
  by (simp add: image_iff) blast

lemma get_indices_Add_scalar:
  assumes "map get_indices args = map Inr rs" and "rs \<noteq> []" and "\<forall>r\<in>set rs. fst r = []"
  shows "get_indices (Add args) = Inr ([], [])"
proof -
  have "filter (\<lambda>x. x \<noteq> []) (map fst rs) = []"
    using assms(3) by (simp add: filter_empty_conv)
  with get_indices_Add_results [OF assms(1,2)] show ?thesis by simp
qed

lemma get_indices_Add_cases:
  assumes "map get_indices args = map Inr rs" and "rs \<noteq> []" and "r \<in> set rs" and "fst r \<noteq> []"
  shows "\<exists>n. n \<noteq> [] \<and> (\<exists>a\<in>set rs. fst a = n) \<and>
     (if \<forall>a\<in>set rs. fst a \<noteq> [] \<longrightarrow> set (fst a) = set n
      then get_indices (Add args) = Inr (n, [])
      else get_indices (Add args) =
        Inl (IndexConformanceException ''Indices are not consistent: %s'' (Add args)))"
proof -
  define ns where "ns = filter (\<lambda>x. x \<noteq> []) (map fst rs)"
  from assms(3,4) have "fst r \<in> set ns" unfolding ns_def non_scalars_member by blast
  then obtain n ns' where c: "ns = n # ns'" by (cases ns) auto
  then have "n \<in> set ns" by simp
  then have n: "n \<noteq> []" "\<exists>a\<in>set rs. fst a = n" unfolding ns_def non_scalars_member by blast+
  have eq: "list_all (\<lambda>x. set x = set n) ns' \<longleftrightarrow>
      (\<forall>a\<in>set rs. fst a \<noteq> [] \<longrightarrow> set (fst a) = set n)"
  proof
    assume l: "list_all (\<lambda>x. set x = set n) ns'"
    show "\<forall>a\<in>set rs. fst a \<noteq> [] \<longrightarrow> set (fst a) = set n"
    proof (intro ballI impI)
      fix a assume "a \<in> set rs" "fst a \<noteq> []"
      then have "fst a \<in> set ns" unfolding ns_def non_scalars_member by blast
      with c have "fst a = n \<or> fst a \<in> set ns'" by simp
      with l show "set (fst a) = set n" by (auto simp: list_all_iff)
    qed
  next
    assume r: "\<forall>a\<in>set rs. fst a \<noteq> [] \<longrightarrow> set (fst a) = set n"
    have "\<forall>x\<in>set ns'. set x = set n"
    proof
      fix x assume "x \<in> set ns'"
      with c have "x \<in> set ns" by simp
      then have "(\<exists>a\<in>set rs. fst a = x) \<and> x \<noteq> []" unfolding ns_def non_scalars_member .
      with r show "set x = set n" by blast
    qed
    then show "list_all (\<lambda>x. set x = set n) ns'" by (simp add: list_all_iff)
  qed
  have "get_indices (Add args) =
      (if \<not> list_all (\<lambda>x. set x = set n) ns'
       then Inl (IndexConformanceException ''Indices are not consistent: %s'' (Add args))
       else Inr (n, []))"
    using get_indices_Add_results [OF assms(1,2)] c by (simp add: ns_def)
  then have "if \<forall>a\<in>set rs. fst a \<noteq> [] \<longrightarrow> set (fst a) = set n
      then get_indices (Add args) = Inr (n, [])
      else get_indices (Add args) =
        Inl (IndexConformanceException ''Indices are not consistent: %s'' (Add args))"
    unfolding eq by simp
  with n show ?thesis by blast
qed

section \<open>Claims about the outer-index resolver\<close>

text \<open>
  C1. For a Product node whose factors each succeed under \<^verbatim>\<open>get_indices\<close>
  (and that has a factor besides its numeric coefficient), \<^verbatim>\<open>get_indices\<close> is
  the deduplicator run on the concatenation of the factors' outer indices: its
  once-set is the outer-index set, with an empty symmetry map, and its twice-tuple is
  the dummy tuple of the \<^verbatim>\<open>return_dummies\<close> variant; a failure of the
  deduplicator is the failure of both. The witness is
  \<^verbatim>\<open>x[i,k]*y[j,k]\<close> with result \<^verbatim>\<open>({i, j}, {})\<close> and dummies \<^verbatim>\<open>(k,)\<close>.
\<close>

theorem get_indices_Mul_outer:
  assumes "map get_indices args = map Inr rs" and "snd (as_coeff_terms (Mul args)) \<noteq> []"
  shows "get_indices (Mul args) =
           (case remove_repeated (concat (map fst rs)) of
              Inl e \<Rightarrow> Inl e
            | Inr (once, twice) \<Rightarrow> Inr (once, [])) \<and>
         get_indices_Mul (Mul args) True =
           (case remove_repeated (concat (map fst rs)) of
              Inl e \<Rightarrow> Inl e
            | Inr (once, twice) \<Rightarrow> Inr (once, [], Some twice))"
  using get_indices_Mul_args [OF assms, of True] get_indices_Mul_args [OF assms, of False]
  by (simp split: sum.splits prod.splits)

theorem get_indices_Mul_outer_witness:
  "get_indices (Mul [Indexed ''x'' [''i'', ''k''], Indexed ''y'' [''j'', ''k'']]) =
     Inr ([''i'', ''j''], []) \<and>
   get_indices_Mul (Mul [Indexed ''x'' [''i'', ''k''], Indexed ''y'' [''j'', ''k'']]) True =
     Inr ([''i'', ''j''], [], Some [''k''])"
proof -
  have a: "map get_indices [Indexed ''x'' [''i'', ''k''], Indexed ''y'' [''j'', ''k'']] =
      map Inr [([''i'', ''k''], []), ([''j'', ''k''], [])]"
    by (simp add: remove_repeated_def)
  have b: "snd (as_coeff_terms (Mul [Indexed ''x'' [''i'', ''k''], Indexed ''y'' [''j'', ''k'']]))
      \<noteq> []"
    by simp
  have c: "remove_repeated (concat (map fst [([''i'', ''k''], []), ([''j'', ''k''], [])])) =
      Inr ([''i'', ''j''], [''k''])"
    by (simp add: remove_repeated_def)
  from get_indices_Mul_outer [OF a b] show ?thesis
    by (simp only: c sum.case prod.case)
qed


text \<open>
  C2. For a Sum node whose terms each have an outer-index set: when every term's
  set is empty the result is the empty set and the empty map; when there are
  non-scalar terms and their sets are pairwise equal the result is that shared set;
  and \<^verbatim>\<open>IndexConformanceException\<close> with the message
  \<^verbatim>\<open>"Indices are not consistent: %s" % expr\<close> is raised exactly when two non-scalar
  terms have unequal sets.
\<close>

theorem get_indices_Add_conformance:
  assumes "args \<noteq> []" and "map get_indices args = map Inr rs"
  shows "((\<forall>r\<in>set rs. fst r = []) \<longrightarrow> get_indices (Add args) = Inr ([], [])) \<and>
         ((\<exists>r\<in>set rs. fst r \<noteq> []) \<and>
          (\<forall>a\<in>set rs. \<forall>b\<in>set rs. fst a \<noteq> [] \<longrightarrow> fst b \<noteq> [] \<longrightarrow> set (fst a) = set (fst b)) \<longrightarrow>
            (\<exists>n. get_indices (Add args) = Inr (n, []) \<and> n \<noteq> [] \<and>
                 (\<forall>a\<in>set rs. fst a \<noteq> [] \<longrightarrow> set (fst a) = set n))) \<and>
         (get_indices (Add args) =
            Inl (IndexConformanceException ''Indices are not consistent: %s'' (Add args)) \<longleftrightarrow>
          (\<exists>a\<in>set rs. \<exists>b\<in>set rs. fst a \<noteq> [] \<and> fst b \<noteq> [] \<and> set (fst a) \<noteq> set (fst b)))"
proof (intro conjI impI)
  from assms have ne: "rs \<noteq> []" by auto
  {
    assume "\<forall>r\<in>set rs. fst r = []"
    then show "get_indices (Add args) = Inr ([], [])"
      by (rule get_indices_Add_scalar [OF assms(2) ne])
  }
  {
    assume h: "(\<exists>r\<in>set rs. fst r \<noteq> []) \<and>
      (\<forall>a\<in>set rs. \<forall>b\<in>set rs. fst a \<noteq> [] \<longrightarrow> fst b \<noteq> [] \<longrightarrow> set (fst a) = set (fst b))"
    then obtain r where r: "r \<in> set rs" "fst r \<noteq> []" by blast
    from get_indices_Add_cases [OF assms(2) ne r] obtain n where
      n: "n \<noteq> []" "\<exists>a\<in>set rs. fst a = n" and
      c: "if \<forall>a\<in>set rs. fst a \<noteq> [] \<longrightarrow> set (fst a) = set n
          then get_indices (Add args) = Inr (n, [])
          else get_indices (Add args) =
            Inl (IndexConformanceException ''Indices are not consistent: %s'' (Add args))"
      by blast
    from n h have a: "\<forall>a\<in>set rs. fst a \<noteq> [] \<longrightarrow> set (fst a) = set n" by blast
    with c have "get_indices (Add args) = Inr (n, [])" by simp
    with n(1) a show "\<exists>n. get_indices (Add args) = Inr (n, []) \<and> n \<noteq> [] \<and>
        (\<forall>a\<in>set rs. fst a \<noteq> [] \<longrightarrow> set (fst a) = set n)"
      by blast
  }
  show "get_indices (Add args) =
      Inl (IndexConformanceException ''Indices are not consistent: %s'' (Add args)) \<longleftrightarrow>
    (\<exists>a\<in>set rs. \<exists>b\<in>set rs. fst a \<noteq> [] \<and> fst b \<noteq> [] \<and> set (fst a) \<noteq> set (fst b))"
  proof
    assume e: "get_indices (Add args) =
      Inl (IndexConformanceException ''Indices are not consistent: %s'' (Add args))"
    have "\<not> (\<forall>r\<in>set rs. fst r = [])"
    proof
      assume "\<forall>r\<in>set rs. fst r = []"
      from get_indices_Add_scalar [OF assms(2) ne this] e show False by simp
    qed
    then obtain r where r: "r \<in> set rs" "fst r \<noteq> []" by blast
    from get_indices_Add_cases [OF assms(2) ne r] obtain n where
      n: "n \<noteq> []" "\<exists>a\<in>set rs. fst a = n" and
      c: "if \<forall>a\<in>set rs. fst a \<noteq> [] \<longrightarrow> set (fst a) = set n
          then get_indices (Add args) = Inr (n, [])
          else get_indices (Add args) =
            Inl (IndexConformanceException ''Indices are not consistent: %s'' (Add args))"
      by blast
    from c e have "\<not> (\<forall>a\<in>set rs. fst a \<noteq> [] \<longrightarrow> set (fst a) = set n)"
      by (auto split: if_splits)
    with n show "\<exists>a\<in>set rs. \<exists>b\<in>set rs. fst a \<noteq> [] \<and> fst b \<noteq> [] \<and> set (fst a) \<noteq> set (fst b)"
      by blast
  next
    assume "\<exists>a\<in>set rs. \<exists>b\<in>set rs. fst a \<noteq> [] \<and> fst b \<noteq> [] \<and> set (fst a) \<noteq> set (fst b)"
    then obtain a b where ab: "a \<in> set rs" "b \<in> set rs" "fst a \<noteq> []" "fst b \<noteq> []"
      "set (fst a) \<noteq> set (fst b)" by blast
    from get_indices_Add_cases [OF assms(2) ne ab(1,3)] obtain n where
      c: "if \<forall>a\<in>set rs. fst a \<noteq> [] \<longrightarrow> set (fst a) = set n
          then get_indices (Add args) = Inr (n, [])
          else get_indices (Add args) =
            Inl (IndexConformanceException ''Indices are not consistent: %s'' (Add args))"
      by blast
    from ab have "\<not> (\<forall>a\<in>set rs. fst a \<noteq> [] \<longrightarrow> set (fst a) = set n)" by blast
    with c show "get_indices (Add args) =
      Inl (IndexConformanceException ''Indices are not consistent: %s'' (Add args))"
      by simp
  qed
qed

theorem get_indices_Add_conformance_witness:
  "get_indices (Add [Indexed ''x'' [''i''], Indexed ''y'' [''j'']]) =
     Inl (IndexConformanceException ''Indices are not consistent: %s''
            (Add [Indexed ''x'' [''i''], Indexed ''y'' [''j'']])) \<and>
   (\<exists>n. get_indices (Add [Indexed ''x'' [''i''],
                     Mul [Indexed ''A'' [''i'', ''j''], Indexed ''y'' [''j'']]]) =
     Inr (n, []) \<and> set n = {''i''}) \<and>
   get_indices (Add [Symbol ''a'', Indexed ''A'' [''i'', ''i'']]) = Inr ([], [])"
proof (intro conjI)
  have ne: "[Indexed ''x'' [''i''], Indexed ''y'' [''j'']] \<noteq> []" by simp
  have m: "map get_indices [Indexed ''x'' [''i''], Indexed ''y'' [''j'']] =
      map Inr [([''i''], []), ([''j''], [])]"
    by (simp add: remove_repeated_def)
  from get_indices_Add_conformance [OF ne m]
  show "get_indices (Add [Indexed ''x'' [''i''], Indexed ''y'' [''j'']]) =
     Inl (IndexConformanceException ''Indices are not consistent: %s''
            (Add [Indexed ''x'' [''i''], Indexed ''y'' [''j'']]))"
    by (simp del: get_indices.simps)
next
  have ne: "[Indexed ''x'' [''i''],
      Mul [Indexed ''A'' [''i'', ''j''], Indexed ''y'' [''j'']]] \<noteq> []" by simp
  have m: "map get_indices [Indexed ''x'' [''i''],
      Mul [Indexed ''A'' [''i'', ''j''], Indexed ''y'' [''j'']]] =
      map Inr [([''i''], []), ([''i''], [])]"
    by (simp add: remove_repeated_def merge_symmetry_def)
  from get_indices_Add_conformance [OF ne m]
  have "\<exists>n. get_indices (Add [Indexed ''x'' [''i''],
      Mul [Indexed ''A'' [''i'', ''j''], Indexed ''y'' [''j'']]]) = Inr (n, []) \<and> n \<noteq> [] \<and>
      {''i''} = set n"
    by (simp del: get_indices.simps)
  then obtain n where "get_indices (Add [Indexed ''x'' [''i''],
      Mul [Indexed ''A'' [''i'', ''j''], Indexed ''y'' [''j'']]]) = Inr (n, [])"
    "{''i''} = set n" by (elim exE conjE)
  then show "\<exists>n. get_indices (Add [Indexed ''x'' [''i''],
                     Mul [Indexed ''A'' [''i'', ''j''], Indexed ''y'' [''j'']]]) =
     Inr (n, []) \<and> set n = {''i''}"
    by (intro exI [of _ n]) (simp del: get_indices.simps)
next
  have ne: "[Symbol ''a'', Indexed ''A'' [''i'', ''i'']] \<noteq> []" by simp
  have m: "map get_indices [Symbol ''a'', Indexed ''A'' [''i'', ''i'']] =
      map Inr [([], []), ([] :: string list, [])]"
    by (simp add: remove_repeated_def)
  from get_indices_Add_conformance [OF ne m]
  show "get_indices (Add [Symbol ''a'', Indexed ''A'' [''i'', ''i'']]) = Inr ([], [])"
    by (simp del: get_indices.simps)
qed


text \<open>
  C10. Whenever \<^verbatim>\<open>get_indices\<close> returns, on a node or on \<^verbatim>\<open>None\<close>, the
  symmetry map it returns is empty.
\<close>

theorem get_indices_symmetry_empty:
  "(get_indices e = Inr (inds, symmetry) \<longrightarrow> symmetry = []) \<and>
   (get_indices_or_None x = Inr (inds', symmetry') \<longrightarrow> symmetry' = [])"
proof
  show "get_indices e = Inr (inds, symmetry) \<longrightarrow> symmetry = []"
    using get_indices_symmetry by blast
  show "get_indices_or_None x = Inr (inds', symmetry') \<longrightarrow> symmetry' = []"
    using get_indices_symmetry by (cases x) (auto simp: get_indices_or_None_def)
qed

theorem get_indices_symmetry_empty_witness:
  "get_indices (Add [Indexed ''x'' [''i''],
      Mul [Indexed ''A'' [''i'', ''j''], Indexed ''y'' [''j'']]]) = Inr ([''i''], []) \<and>
   get_indices_or_None (None :: string expr option) = Inr ([], [])"
proof -
  have v: "get_indices (Add [Indexed ''x'' [''i''],
      Mul [Indexed ''A'' [''i'', ''j''], Indexed ''y'' [''j'']]]) = Inr ([''i''], [])"
    by (simp add: remove_repeated_def merge_symmetry_def)
  have w: "get_indices_or_None (None :: string expr option) = Inr ([], [])"
    by (simp add: get_indices_or_None_def)
  from get_indices_symmetry_empty [of "Add [Indexed ''x'' [''i''],
      Mul [Indexed ''A'' [''i'', ''j''], Indexed ''y'' [''j'']]]" "[''i'']" "[]"
      "None :: string expr option" "[]" "[]"] v w
  show ?thesis by (intro conjI)
qed

text \<open>
  C8. For an Indexed leaf in which no index occurs three or more times,
  \<^verbatim>\<open>get_indices\<close> returns the indices that occur exactly once in the leaf's index
  list, with an empty symmetry map; indices repeated within the leaf are dropped.
  In particular the trace \<^verbatim>\<open>A[i,i]\<close> gives \<^verbatim>\<open>(set(), {})\<close> for every base
  \<^verbatim>\<open>A\<close> and index \<^verbatim>\<open>i\<close>.
\<close>

theorem get_indices_Indexed:
  "((\<forall>x. count_list c x < 3) \<longrightarrow>
      get_indices (Indexed b c) = Inr (filter (\<lambda>x. count_list c x = 1) c, [])) \<and>
   get_indices (Indexed a [i, i]) = Inr ([], [])"
proof (intro conjI impI)
  assume "\<forall>x. count_list c x < 3"
  then have "\<forall>k. count_list c k \<le> 2"
    by (auto simp: less_Suc_eq_le numeral_3_eq_3 numeral_2_eq_2)
  from remove_repeated_returns [OF this]
  show "get_indices (Indexed b c) = Inr (filter (\<lambda>x. count_list c x = 1) c, [])"
    by auto
next
  show "get_indices (Indexed a [i, i]) = Inr ([], [])"
    by (simp add: remove_repeated_def)
qed

theorem get_indices_Indexed_witness:
  "(\<forall>x. count_list [''i'', ''j'', ''j''] x < 3) \<and>
   get_indices (Indexed ''A'' [''i'', ''j'', ''j'']) = Inr ([''i''], [])"
proof -
  have h: "\<forall>x. count_list [''i'', ''j'', ''j''] x < 3" by simp
  from get_indices_Indexed [of "[''i'', ''j'', ''j'']" "''A''", THEN conjunct1, THEN mp, OF h]
  have "get_indices (Indexed ''A'' [''i'', ''j'', ''j'']) =
      Inr (filter (\<lambda>x. count_list [''i'', ''j'', ''j''] x = 1) [''i'', ''j'', ''j''], [])"
    by (simp del: get_indices.simps)
  then have "get_indices (Indexed ''A'' [''i'', ''j'', ''j'']) = Inr ([''i''], [])"
    by (simp del: get_indices.simps)
  with h show ?thesis by (intro conjI)
qed

text \<open>
  Without the bound on the occurrences the statement of C8 fails: on
  \<^verbatim>\<open>A[i,i,i]\<close> no index occurs exactly once, so the result would be the empty
  set with the empty map; instead the assertion of the deduplicator fails and nothing
  is returned.
\<close>

theorem get_indices_Indexed_counterexample:
  "get_indices (Indexed ''A'' [''i'', ''i'', ''i'']) =
     Inl (AssertionError ''Index %s repeated more than twice'' ''i'') \<and>
   get_indices (Indexed ''A'' [''i'', ''i'', ''i'']) \<noteq> Inr ([], [])"
  by (simp add: remove_repeated_def)

text \<open>
  C9. For a node that is neither an Indexed leaf, an atom, a Sum nor a Product: if
  it contains no Indexed leaf, \<^verbatim>\<open>get_indices\<close> returns the empty set and map and
  \<^verbatim>\<open>get_contraction_structure\<close> returns \<^verbatim>\<open>{None: {expr}}\<close>; if it contains one,
  both raise \<^verbatim>\<open>NotImplementedError\<close>.
\<close>

theorem unsupported_node:
  "(\<not> has_Indexed (Other name args) \<longrightarrow>
      get_indices (Other name args) = Inr ([], []) \<and>
      get_contraction_structure (Other name args) =
        Inr [(KNone, ExprSet {Other name args})]) \<and>
   (has_Indexed (Other name args) \<longrightarrow>
      get_indices (Other name args) =
        Inl (NotImplementedError ''FIXME: No specialized handling of type %s'' name) \<and>
      get_contraction_structure (Other name args) =
        Inl (NotImplementedError ''FIXME: No specialized handling of type %s'' name))"
  by simp

theorem unsupported_node_witness:
  "\<not> has_Indexed (Other ''sin'' [Symbol ''a'' :: string expr]) \<and>
   get_indices (Other ''sin'' [Symbol ''a'' :: string expr]) = Inr ([], []) \<and>
   get_contraction_structure (Other ''sin'' [Symbol ''a'' :: string expr]) =
     Inr [(KNone, ExprSet {Other ''sin'' [Symbol ''a'']})] \<and>
   has_Indexed (Other ''Pow'' [Indexed ''x'' [''i''], Number 2]) \<and>
   get_indices (Other ''Pow'' [Indexed ''x'' [''i''], Number 2]) =
     Inl (NotImplementedError ''FIXME: No specialized handling of type %s'' ''Pow'') \<and>
   get_contraction_structure (Other ''Pow'' [Indexed ''x'' [''i''], Number 2]) =
     Inl (NotImplementedError ''FIXME: No specialized handling of type %s'' ''Pow'')"
proof -
  have a: "\<not> has_Indexed (Other ''sin'' [Symbol ''a'' :: string expr])" by simp
  have b: "has_Indexed (Other ''Pow'' [Indexed ''x'' [''i''], Number 2])" by simp
  from unsupported_node [of "''sin''" "[Symbol ''a'' :: string expr]"] a
    unsupported_node [of "''Pow''" "[Indexed ''x'' [''i''], Number 2]"] b
  show ?thesis by blast
qed

section \<open>Ambiguous summation\<close>

lemma count_list_nonempty: "3 \<le> count_list xs i \<Longrightarrow> xs \<noteq> []"
  by auto

lemma get_indices_Mul_raises:
  assumes "map get_indices args = map Inr rs" and "3 \<le> count_list (concat (map fst rs)) i"
  shows "\<exists>j. 3 \<le> count_list (concat (map fst rs)) j \<and>
    (\<forall>rd. get_indices_Mul (Mul args) rd =
      Inl (AssertionError ''Index %s repeated more than twice'' j))"
proof -
  from factors_results [OF assms(1)] obtain rs' where
    m: "map get_indices (snd (as_coeff_terms (Mul args))) = map Inr rs'" and
    c: "concat (map fst rs') = concat (map fst rs)" by blast
  from count_list_nonempty [OF assms(2)] have "concat (map fst rs) \<noteq> []" .
  then have "concat (map fst rs') \<noteq> []" by (simp add: c)
  then have "rs' \<noteq> []" by (cases rs') simp_all
  with m have ne: "snd (as_coeff_terms (Mul args)) \<noteq> []" by auto
  from remove_repeated_raises [OF assms(2)] obtain j where
    j: "remove_repeated (concat (map fst rs)) =
          Inl (AssertionError ''Index %s repeated more than twice'' j)"
       "3 \<le> count_list (concat (map fst rs)) j" by blast
  have "get_indices_Mul (Mul args) rd =
      Inl (AssertionError ''Index %s repeated more than twice'' j)" for rd
    using get_indices_Mul_args [OF assms(1) ne, of rd] j(1) by simp
  with j(2) show ?thesis by blast
qed

text \<open>
  C5. The occurrences that count are those the code counts. In the index list of a
  single Indexed leaf, an index that occurs three or more times makes both analyses
  fail with the assertion "Index %s repeated more than twice". In a Product node
  whose factors each succeed under \<^verbatim>\<open>get_indices\<close>, an index that occurs three
  or more times in the concatenation of the factors' outer indices does the same.
\<close>

theorem ambiguous_summation:
  "(3 \<le> count_list c i \<longrightarrow>
      (\<exists>j. 3 \<le> count_list c j \<and>
         get_indices (Indexed b c) =
           Inl (AssertionError ''Index %s repeated more than twice'' j) \<and>
         get_contraction_structure (Indexed b c) =
           Inl (AssertionError ''Index %s repeated more than twice'' j))) \<and>
   (map get_indices args = map Inr rs \<and> 3 \<le> count_list (concat (map fst rs)) i \<longrightarrow>
      (\<exists>j. 3 \<le> count_list (concat (map fst rs)) j \<and>
         get_indices (Mul args) =
           Inl (AssertionError ''Index %s repeated more than twice'' j) \<and>
         get_contraction_structure (Mul args) =
           Inl (AssertionError ''Index %s repeated more than twice'' j)))"
proof (intro conjI impI)
  assume "3 \<le> count_list c i"
  from remove_repeated_raises [OF this] obtain j where
    "remove_repeated c = Inl (AssertionError ''Index %s repeated more than twice'' j)"
    "3 \<le> count_list c j" by blast
  then show "\<exists>j. 3 \<le> count_list c j \<and>
         get_indices (Indexed b c) =
           Inl (AssertionError ''Index %s repeated more than twice'' j) \<and>
         get_contraction_structure (Indexed b c) =
           Inl (AssertionError ''Index %s repeated more than twice'' j)"
    by (intro exI [of _ j]) simp
next
  assume a: "map get_indices args = map Inr rs \<and> 3 \<le> count_list (concat (map fst rs)) i"
  then have a1: "map get_indices args = map Inr rs"
    and a2: "3 \<le> count_list (concat (map fst rs)) i" by simp_all
  from get_indices_Mul_raises [OF a1 a2] obtain j where
    j: "3 \<le> count_list (concat (map fst rs)) j"
    "\<And>rd. get_indices_Mul (Mul args) rd =
      Inl (AssertionError ''Index %s repeated more than twice'' j)" by blast
  from j(2) [of False] have "get_indices (Mul args) =
      Inl (AssertionError ''Index %s repeated more than twice'' j)" by simp
  moreover from j(2) [of True] have "get_contraction_structure (Mul args) =
      Inl (AssertionError ''Index %s repeated more than twice'' j)" by simp
  ultimately show "\<exists>j. 3 \<le> count_list (concat (map fst rs)) j \<and>
         get_indices (Mul args) =
           Inl (AssertionError ''Index %s repeated more than twice'' j) \<and>
         get_contraction_structure (Mul args) =
           Inl (AssertionError ''Index %s repeated more than twice'' j)"
    using j(1) by blast
qed

theorem ambiguous_summation_witness:
  "3 \<le> count_list [''i'', ''i'', ''i''] ''i'' \<and>
   get_indices (Indexed ''A'' [''i'', ''i'', ''i'']) =
     Inl (AssertionError ''Index %s repeated more than twice'' ''i'') \<and>
   map get_indices [Indexed ''x'' [''i''], Indexed ''y'' [''i''], Indexed ''z'' [''i'']] =
     map Inr [([''i''], []), ([''i''], []), ([''i''], [])] \<and>
   (\<exists>j. get_indices (Mul [Indexed ''x'' [''i''], Indexed ''y'' [''i''], Indexed ''z'' [''i'']]) =
      Inl (AssertionError ''Index %s repeated more than twice'' j) \<and>
      get_contraction_structure
        (Mul [Indexed ''x'' [''i''], Indexed ''y'' [''i''], Indexed ''z'' [''i'']]) =
      Inl (AssertionError ''Index %s repeated more than twice'' j))"
proof -
  have h1: "3 \<le> count_list [''i'', ''i'', ''i''] ''i''" by simp
  have v1: "get_indices (Indexed ''A'' [''i'', ''i'', ''i'']) =
     Inl (AssertionError ''Index %s repeated more than twice'' ''i'')"
    by (simp add: remove_repeated_def)
  have m: "map get_indices [Indexed ''x'' [''i''], Indexed ''y'' [''i''], Indexed ''z'' [''i'']] =
     map Inr [([''i''], []), ([''i''], []), ([''i''], [])]"
    by (simp add: remove_repeated_def)
  have h2: "3 \<le> count_list (concat (map fst [([''i''], []), ([''i''], []),
      ([''i''], [] :: string symmetry)])) ''i''"
    by simp
  from ambiguous_summation [THEN conjunct2, THEN mp, OF conjI, OF m h2]
  have "\<exists>j. get_indices (Mul [Indexed ''x'' [''i''], Indexed ''y'' [''i''], Indexed ''z'' [''i'']]) =
      Inl (AssertionError ''Index %s repeated more than twice'' j) \<and>
      get_contraction_structure
        (Mul [Indexed ''x'' [''i''], Indexed ''y'' [''i''], Indexed ''z'' [''i'']]) =
      Inl (AssertionError ''Index %s repeated more than twice'' j)"
    by (elim exE conjE, intro exI conjI)
  with h1 v1 m show ?thesis by (intro conjI)
qed

text \<open>
  Counted over the index lists of the leaf factors, as C5 is worded, the statement
  fails: in \<^verbatim>\<open>A[i,i]*x[i]\<close> the index \<^verbatim>\<open>i\<close> stands at three positions of the
  product, yet the trace is contracted inside its leaf first and both analyses
  return.
\<close>

theorem ambiguous_summation_counterexample:
  "3 \<le> count_list (scope_indices (Mul [Indexed ''A'' [''i'', ''i''], Indexed ''x'' [''i'']])) ''i'' \<and>
   get_indices (Mul [Indexed ''A'' [''i'', ''i''], Indexed ''x'' [''i'']]) = Inr ([''i''], []) \<and>
   get_contraction_structure (Mul [Indexed ''A'' [''i'', ''i''], Indexed ''x'' [''i'']]) =
     Inr [(KNone, ExprSet {Mul [Indexed ''A'' [''i'', ''i''], Indexed ''x'' [''i'']]})]"
  by (simp add: remove_repeated_def merge_symmetry_def key_or_None_def)

section \<open>Claims about the contraction structure\<close>

lemma key_or_None_not_KExpr: "key_or_None k \<noteq> KExpr e"
  by (simp add: key_or_None_def)

text \<open>
  C3. For a Product node on which the product rule with \<^verbatim>\<open>return_dummies\<close>
  yields the dummy tuple and whose Sum factors each have a contraction structure,
  \<^verbatim>\<open>get_contraction_structure\<close> returns the entry
  \<^verbatim>\<open>{dummies or None: {expr}}\<close>, and exactly when some factor is a Sum one further
  entry: its key is the Product node, its value the list of the structures of the
  Sum factors, in order. In particular \<^verbatim>\<open>x[i]*y[j]\<close> gives
  \<^verbatim>\<open>{None: {x[i]*y[j]}}\<close>.
\<close>

theorem contraction_structure_Mul:
  assumes "get_indices_Mul (Mul args) True = Inr (inds, symmetry, Some dummies)"
    and "map get_contraction_structure (filter is_Add args) = map Inr ds"
  shows "get_contraction_structure (Mul args) =
    Inr ((key_or_None dummies, ExprSet {Mul args}) #
         (if \<exists>f\<in>set args. is_Add f then [(KExpr (Mul args), StructList ds)] else []))"
proof (cases "filter is_Add args = []")
  case True
  then have "\<not> (\<exists>f\<in>set args. is_Add f)" by (simp add: filter_empty_conv)
  with True assms(1) show ?thesis by simp
next
  case False
  then have "\<exists>f\<in>set args. is_Add f" by (simp add: filter_empty_conv)
  with False assms show ?thesis
    by (simp add: sequence_results_map_Inr key_or_None_not_KExpr)
qed

theorem contraction_structure_Mul_witness:
  "get_contraction_structure (Mul [Indexed ''x'' [''i''], Indexed ''y'' [''j'']]) =
     Inr [(KNone, ExprSet {Mul [Indexed ''x'' [''i''], Indexed ''y'' [''j'']]})] \<and>
   get_contraction_structure
     (Mul [Indexed ''x'' [''i''],
           Add [Indexed ''y'' [''i''], Mul [Indexed ''A'' [''i'', ''j''], Indexed ''x'' [''j'']]]]) =
     Inr [(KTuple [''i''],
           ExprSet {Mul [Indexed ''x'' [''i''],
              Add [Indexed ''y'' [''i''],
                   Mul [Indexed ''A'' [''i'', ''j''], Indexed ''x'' [''j'']]]]}),
          (KExpr (Mul [Indexed ''x'' [''i''],
              Add [Indexed ''y'' [''i''],
                   Mul [Indexed ''A'' [''i'', ''j''], Indexed ''x'' [''j'']]]]),
           StructList [[(KNone, ExprSet {Indexed ''y'' [''i'']}),
                        (KTuple [''j''],
                         ExprSet {Mul [Indexed ''A'' [''i'', ''j''], Indexed ''x'' [''j'']]})]])]"
proof (intro conjI)
  have a: "get_indices_Mul (Mul [Indexed ''x'' [''i''], Indexed ''y'' [''j'']]) True =
      Inr ([''i'', ''j''], [], Some [])"
    by (simp add: remove_repeated_def merge_symmetry_def)
  have b: "map get_contraction_structure
      (filter is_Add [Indexed ''x'' [''i''], Indexed ''y'' [''j'']]) = map Inr []"
    by simp
  from contraction_structure_Mul [OF a b]
  show "get_contraction_structure (Mul [Indexed ''x'' [''i''], Indexed ''y'' [''j'']]) =
     Inr [(KNone, ExprSet {Mul [Indexed ''x'' [''i''], Indexed ''y'' [''j'']]})]"
    by (simp add: key_or_None_def del: get_contraction_structure.simps)
next
  have a: "get_indices_Mul (Mul [Indexed ''x'' [''i''],
           Add [Indexed ''y'' [''i''], Mul [Indexed ''A'' [''i'', ''j''], Indexed ''x'' [''j'']]]])
        True = Inr ([], [], Some [''i''])"
    by (simp add: remove_repeated_def merge_symmetry_def)
  have b: "map get_contraction_structure
      (filter is_Add [Indexed ''x'' [''i''],
           Add [Indexed ''y'' [''i''], Mul [Indexed ''A'' [''i'', ''j''], Indexed ''x'' [''j'']]]]) =
      map Inr [[(KNone, ExprSet {Indexed ''y'' [''i'']}),
                        (KTuple [''j''],
                         ExprSet {Mul [Indexed ''A'' [''i'', ''j''], Indexed ''x'' [''j'']]})]]"
    by (simp add: remove_repeated_def merge_symmetry_def key_or_None_def)
  from contraction_structure_Mul [OF a b]
  show "get_contraction_structure
     (Mul [Indexed ''x'' [''i''],
           Add [Indexed ''y'' [''i''], Mul [Indexed ''A'' [''i'', ''j''], Indexed ''x'' [''j'']]]]) =
     Inr [(KTuple [''i''],
           ExprSet {Mul [Indexed ''x'' [''i''],
              Add [Indexed ''y'' [''i''],
                   Mul [Indexed ''A'' [''i'', ''j''], Indexed ''x'' [''j'']]]]}),
          (KExpr (Mul [Indexed ''x'' [''i''],
              Add [Indexed ''y'' [''i''],
                   Mul [Indexed ''A'' [''i'', ''j''], Indexed ''x'' [''j'']]]]),
           StructList [[(KNone, ExprSet {Indexed ''y'' [''i'']}),
                        (KTuple [''j''],
                         ExprSet {Mul [Indexed ''A'' [''i'', ''j''], Indexed ''x'' [''j'']]})]])]"
    by (simp add: key_or_None_def del: get_contraction_structure.simps)
qed


section \<open>Properties of the merge of contraction structures\<close>

lemma combine_None_iff: "combine x y = None \<longleftrightarrow> x = None \<and> y = None"
  by (cases x; cases y) (auto split: sum.splits)

lemma ior_Inr_iff: "ior w v = Inr u \<longleftrightarrow> (\<exists>a b. w = ExprSet a \<and> v = ExprSet b \<and> u = ExprSet (a \<union> b))"
  by (cases w; cases v) auto

lemma merge_keys_lookup:
  "distinct (map fst d) \<Longrightarrow> merge_keys result d = Inr r \<Longrightarrow>
   map_of r k = combine (map_of result k) (map_of d k)"
proof (induction d arbitrary: result)
  case Nil
  then show ?case by simp
next
  case (Cons p d)
  obtain key v where p: "p = (key, v)" by (cases p)
  from Cons.prems(1) p have dd: "distinct (map fst d)" and nk: "map_of d key = None"
    by (auto simp: map_of_eq_None_iff)
  show ?case
  proof (cases "map_of result key")
    case None
    with Cons.prems(2) p have "merge_keys (AList.update key v result) d = Inr r" by simp
    from Cons.IH [OF dd this] have "map_of r k = combine (map_of (AList.update key v result) k) (map_of d k)" .
    with None nk p show ?thesis by (cases "k = key") (simp_all add: update_conv')
  next
    case (Some w)
    with Cons.prems(2) p obtain u where u: "ior w v = Inr u"
      and m: "merge_keys (AList.update key u result) d = Inr r"
      by (auto split: sum.splits)
    from Cons.IH [OF dd m] have "map_of r k = combine (map_of (AList.update key u result) k) (map_of d k)" .
    with Some nk p u show ?thesis by (cases "k = key") (simp_all add: update_conv')
  qed
qed

lemma merge_keys_sets:
  "distinct (map fst d) \<Longrightarrow> merge_keys result d = Inr r \<Longrightarrow>
   map_of result k = Some w \<Longrightarrow> map_of d k = Some v \<Longrightarrow>
   \<exists>a b. w = ExprSet a \<and> v = ExprSet b"
proof (induction d arbitrary: result)
  case Nil
  then show ?case by simp
next
  case (Cons p d)
  obtain key v' where p: "p = (key, v')" by (cases p)
  from Cons.prems(1) p have dd: "distinct (map fst d)" and nk: "map_of d key = None"
    by (auto simp: map_of_eq_None_iff)
  show ?case
  proof (cases "k = key")
    case True
    with Cons.prems p have "v' = v" by simp
    with Cons.prems(2,3) p True obtain u where "ior w v = Inr u"
      by (auto split: sum.splits)
    then show ?thesis by (auto simp: ior_Inr_iff)
  next
    case False
    with Cons.prems(4) p have dk: "map_of d k = Some v" by simp
    show ?thesis
    proof (cases "map_of result key")
      case None
      with Cons.prems(2) p have m: "merge_keys (AList.update key v' result) d = Inr r" by simp
      from False Cons.prems(3) have "map_of (AList.update key v' result) k = Some w"
        by (simp add: update_conv')
      from Cons.IH [OF dd m this dk] show ?thesis .
    next
      case (Some w')
      with Cons.prems(2) p obtain u where
        m: "merge_keys (AList.update key u result) d = Inr r"
        by (auto split: sum.splits)
      from False Cons.prems(3) have "map_of (AList.update key u result) k = Some w"
        by (simp add: update_conv')
      from Cons.IH [OF dd m this dk] show ?thesis .
    qed
  qed
qed

lemma merge_keys_distinct:
  "distinct (map fst result) \<Longrightarrow> merge_keys result d = Inr r \<Longrightarrow> distinct (map fst r)"
proof (induction d arbitrary: result)
  case Nil
  then show ?case by simp
next
  case (Cons p d)
  obtain key v where p: "p = (key, v)" by (cases p)
  show ?case
  proof (cases "map_of result key")
    case None
    with Cons.prems(2) p have m: "merge_keys (AList.update key v result) d = Inr r" by simp
    from Cons.IH [OF distinct_update [OF Cons.prems(1)] m] show ?thesis .
  next
    case (Some w)
    with Cons.prems(2) p obtain u where
      m: "merge_keys (AList.update key u result) d = Inr r"
      by (auto split: sum.splits)
    from Cons.IH [OF distinct_update [OF Cons.prems(1)] m] show ?thesis .
  qed
qed

lemma merge_keys_succeeds:
  "distinct (map fst d) \<Longrightarrow>
   (\<And>k w v. map_of result k = Some w \<Longrightarrow> map_of d k = Some v \<Longrightarrow>
      \<exists>a b. w = ExprSet a \<and> v = ExprSet b) \<Longrightarrow>
   \<exists>r. merge_keys result d = Inr r"
proof (induction d arbitrary: result)
  case Nil
  then show ?case by simp
next
  case (Cons p d)
  obtain key v where p: "p = (key, v)" by (cases p)
  from Cons.prems(1) p have dd: "distinct (map fst d)" and nk: "map_of d key = None"
    by (auto simp: map_of_eq_None_iff)
  have step: "\<exists>r. merge_keys (AList.update key u result) d = Inr r" for u
  proof (rule Cons.IH [OF dd])
    fix k w v'
    assume a: "map_of (AList.update key u result) k = Some w" and b: "map_of d k = Some v'"
    from b nk have ne: "k \<noteq> key" by auto
    with a have "map_of result k = Some w" by (simp add: update_conv')
    moreover from b ne p have "map_of (p # d) k = Some v'" by simp
    ultimately show "\<exists>a b. w = ExprSet a \<and> v' = ExprSet b" by (rule Cons.prems(2))
  qed
  show ?case
  proof (cases "map_of result key")
    case None
    with step [of v] p show ?thesis by simp
  next
    case (Some w)
    moreover from p have "map_of (p # d) key = Some v" by simp
    ultimately obtain a b where "w = ExprSet a" "v = ExprSet b"
      using Cons.prems(2) by blast
    with Some step [of "ExprSet (a \<union> b)"] p show ?thesis by simp
  qed
qed


lemma merge_keys_typed:
  assumes "distinct (map fst d)" and "typed result" and "typed d"
    and "merge_keys result d = Inr r"
  shows "typed r"
  unfolding typed_def
proof (intro allI impI)
  fix k v
  assume r: "map_of r k = Some v"
  note l = merge_keys_lookup [OF assms(1,4), of k]
  show "is_KExpr k \<longleftrightarrow> is_StructList v"
  proof (cases "map_of d k")
    case None
    with l r have "map_of result k = Some v" by simp
    with assms(2) show ?thesis by (simp add: typed_def)
  next
    case (Some v')
    show ?thesis
    proof (cases "map_of result k")
      case None
      with l r Some have "map_of d k = Some v" by simp
      with assms(3) show ?thesis by (simp add: typed_def)
    next
      case (Some w)
      from merge_keys_sets [OF assms(1,4) Some \<open>map_of d k = Some v'\<close>]
      obtain a b where ab: "w = ExprSet a" "v' = ExprSet b" by blast
      with l r Some \<open>map_of d k = Some v'\<close> have "v = ExprSet (a \<union> b)" by simp
      moreover from assms(2) Some ab have "\<not> is_KExpr k" by (auto simp: typed_def)
      ultimately show ?thesis by simp
    qed
  qed
qed

lemma merge_keys_value_set:
  assumes "distinct (map fst d)" and "merge_keys result d = Inr r"
  shows "value_set r k = value_set result k \<union> value_set d k"
proof -
  note l = merge_keys_lookup [OF assms, of k]
  show ?thesis
  proof (cases "map_of d k")
    case None
    with l show ?thesis by (simp add: value_set_def)
  next
    case (Some v')
    show ?thesis
    proof (cases "map_of result k")
      case None
      with l Some show ?thesis by (simp add: value_set_def)
    next
      case (Some w)
      from merge_keys_sets [OF assms Some \<open>map_of d k = Some v'\<close>]
      obtain a b where ab: "w = ExprSet a" "v' = ExprSet b" by blast
      with l Some \<open>map_of d k = Some v'\<close> show ?thesis by (simp add: value_set_def)
    qed
  qed
qed

lemma merge_keys_lists:
  assumes "distinct (map fst d)" and "merge_keys result d = Inr r"
    and "map_of result k = Some (StructList l) \<or> map_of d k = Some (StructList l)"
  shows "map_of r k = Some (StructList l)"
proof -
  note lk = merge_keys_lookup [OF assms(1,2), of k]
  have "map_of result k = None \<or> map_of d k = None"
  proof (rule ccontr)
    assume "\<not> (map_of result k = None \<or> map_of d k = None)"
    then obtain w v where wv: "map_of result k = Some w" "map_of d k = Some v" by auto
    from merge_keys_sets [OF assms(1,2) wv] wv assms(3) show False by auto
  qed
  with lk assms(3) show ?thesis by (cases "map_of result k"; cases "map_of d k") auto
qed

lemma merge_keys_None:
  assumes "distinct (map fst d)" and "merge_keys result d = Inr r"
  shows "map_of r k = None \<longleftrightarrow> map_of result k = None \<and> map_of d k = None"
  using merge_keys_lookup [OF assms, of k] by (simp add: combine_None_iff)

lemma merge_terms_Inr:
  "merge_terms result rs = Inr r \<Longrightarrow> \<exists>ds. rs = map Inr ds"
proof (induction rs arbitrary: result)
  case Nil
  then show ?case by simp
next
  case (Cons x rs)
  show ?case
  proof (cases x)
    case (Inl e)
    with Cons.prems show ?thesis by simp
  next
    case (Inr d)
    with Cons.prems obtain r1 where "merge_terms r1 rs = Inr r" by (auto split: sum.splits)
    from Cons.IH [OF this] obtain ds where "rs = map Inr ds" by blast
    with Inr have "x # rs = map Inr (d # ds)" by simp
    then show ?thesis by (rule exI)
  qed
qed

lemma merge_terms_result:
  "\<forall>d\<in>set ds. distinct (map fst d) \<Longrightarrow> merge_terms result (map Inr ds) = Inr r \<Longrightarrow>
   (map_of r k = None \<longleftrightarrow> map_of result k = None \<and> (\<forall>d\<in>set ds. map_of d k = None)) \<and>
   value_set r k = value_set result k \<union> (\<Union>d\<in>set ds. value_set d k) \<and>
   (map_of result k = Some (StructList l) \<or> (\<exists>d\<in>set ds. map_of d k = Some (StructList l))
      \<longrightarrow> map_of r k = Some (StructList l))"
proof (induction ds arbitrary: result)
  case Nil
  then show ?case by simp
next
  case (Cons d ds)
  from Cons.prems(2) obtain r1 where r1: "merge_keys result d = Inr r1"
    and m: "merge_terms r1 (map Inr ds) = Inr r" by (auto split: sum.splits)
  from Cons.prems(1) have dd: "distinct (map fst d)" and ds: "\<forall>d\<in>set ds. distinct (map fst d)"
    by simp_all
  note ih = Cons.IH [OF ds m]
  have 1: "map_of r k = None \<longleftrightarrow>
      map_of result k = None \<and> (\<forall>d\<in>set (d # ds). map_of d k = None)"
    using ih merge_keys_None [OF dd r1, of k] by simp
  have 2: "value_set r k = value_set result k \<union> (\<Union>d\<in>set (d # ds). value_set d k)"
    using ih merge_keys_value_set [OF dd r1, of k] by auto
  have 3: "map_of result k = Some (StructList l) \<or>
      (\<exists>d\<in>set (d # ds). map_of d k = Some (StructList l)) \<longrightarrow>
      map_of r k = Some (StructList l)"
  proof
    assume "map_of result k = Some (StructList l) \<or>
      (\<exists>d\<in>set (d # ds). map_of d k = Some (StructList l))"
    then have "(map_of result k = Some (StructList l) \<or> map_of d k = Some (StructList l)) \<or>
      (\<exists>d\<in>set ds. map_of d k = Some (StructList l))" by auto
    then show "map_of r k = Some (StructList l)"
    proof
      assume "map_of result k = Some (StructList l) \<or> map_of d k = Some (StructList l)"
      from merge_keys_lists [OF dd r1 this] ih show ?thesis by blast
    next
      assume "\<exists>d\<in>set ds. map_of d k = Some (StructList l)"
      with ih show ?thesis by blast
    qed
  qed
  from 1 2 3 show ?case by blast
qed

lemma merge_terms_wf:
  "distinct (map fst result) \<Longrightarrow> typed result \<Longrightarrow>
   \<forall>d\<in>set ds. distinct (map fst d) \<and> typed d \<Longrightarrow>
   merge_terms result (map Inr ds) = Inr r \<Longrightarrow> distinct (map fst r) \<and> typed r"
proof (induction ds arbitrary: result)
  case Nil
  then show ?case by simp
next
  case (Cons d ds)
  from Cons.prems(4) obtain r1 where r1: "merge_keys result d = Inr r1"
    and m: "merge_terms r1 (map Inr ds) = Inr r" by (auto split: sum.splits)
  from Cons.prems(3) have d: "distinct (map fst d)" "typed d"
    and ds: "\<forall>d\<in>set ds. distinct (map fst d) \<and> typed d" by simp_all
  from merge_keys_distinct [OF Cons.prems(1) r1] have a: "distinct (map fst r1)" .
  from merge_keys_typed [OF d(1) Cons.prems(2) d(2) r1] have b: "typed r1" .
  from Cons.IH [OF a b ds m] show ?case .
qed

lemma is_KExpr_key_or_None: "\<not> is_KExpr (key_or_None k)"
  by (simp add: key_or_None_def)

lemma typed_single: "\<not> is_KExpr k \<Longrightarrow> typed [(k, ExprSet s)]"
  by (simp add: typed_def)

lemma typed_pair: "\<not> is_KExpr k \<Longrightarrow> typed [(k, ExprSet s), (KExpr e, StructList l)]"
  by (auto simp: typed_def split: if_splits)

lemma contraction_structure_wf:
  "get_contraction_structure e = Inr d \<Longrightarrow> distinct (map fst d) \<and> typed d"
proof (induction e arbitrary: d rule: get_contraction_structure.induct)
  case (1 b c)
  then show ?case by (auto split: sum.splits simp: typed_single is_KExpr_key_or_None)
next
  case (2 n)
  then show ?case by (auto simp: typed_single)
next
  case (3 c)
  then show ?case by (auto simp: typed_single)
next
  case (4 args)
  from "4.prems" obtain key l where
    "d = [(key_or_None key, ExprSet {Mul args})] \<or>
     d = [(key_or_None key, ExprSet {Mul args}), (KExpr (Mul args), StructList l)]"
    by (auto split: sum.splits option.splits if_splits simp: key_or_None_not_KExpr)
  then show ?case
    using typed_single [OF is_KExpr_key_or_None] typed_pair [OF is_KExpr_key_or_None]
    by (auto simp: key_or_None_not_KExpr)
next
  case (5 args)
  from "5.prems" have m: "merge_terms [] (map get_contraction_structure args) = Inr d" by simp
  from merge_terms_Inr [OF m] obtain ds where
    ds: "map get_contraction_structure args = map Inr ds" by blast
  have "\<forall>x\<in>set ds. distinct (map fst x) \<and> typed x"
  proof
    fix x assume "x \<in> set ds"
    from map_eq_map_Inr_member [OF ds this] obtain t where
      "t \<in> set args" "get_contraction_structure t = Inr x" by blast
    then show "distinct (map fst x) \<and> typed x" by (rule "5.IH")
  qed
  moreover have "distinct (map fst ([] :: 'a contraction))" "typed ([] :: 'a contraction)"
    by (simp_all add: typed_def)
  ultimately show ?case using m unfolding ds by (intro merge_terms_wf)
next
  case (6 name args)
  then show ?case by (auto split: if_splits simp: typed_single)
qed

lemma expr_keys_member: "k \<in> set (expr_keys d) \<longleftrightarrow> is_KExpr k \<and> map_of d k \<noteq> None"
  by (auto simp: expr_keys_def map_of_eq_None_iff)

lemma not_StructList: "\<not> is_StructList v \<Longrightarrow> \<exists>a. v = ExprSet a"
  by (cases v) simp_all

lemma merge_terms_succeeds:
  "distinct (map fst result) \<Longrightarrow> typed result \<Longrightarrow>
   \<forall>d\<in>set ds. distinct (map fst d) \<and> typed d \<Longrightarrow>
   distinct (expr_keys result @ concat (map expr_keys ds)) \<Longrightarrow>
   \<exists>r. merge_terms result (map Inr ds) = Inr r"
proof (induction ds arbitrary: result)
  case Nil
  then show ?case by simp
next
  case (Cons d ds)
  from Cons.prems(3) have d: "distinct (map fst d)" "typed d"
    and ds: "\<forall>d\<in>set ds. distinct (map fst d) \<and> typed d" by simp_all
  from Cons.prems(4) have disj: "set (expr_keys result) \<inter> set (expr_keys d) = {}"
    and disj2: "set (expr_keys result) \<inter> set (concat (map expr_keys ds)) = {}"
    and disj3: "set (expr_keys d) \<inter> set (concat (map expr_keys ds)) = {}"
    and dc: "distinct (concat (map expr_keys ds))"
    by auto
  have "\<exists>r1. merge_keys result d = Inr r1"
  proof (rule merge_keys_succeeds [OF d(1)])
    fix k w v
    assume w: "map_of result k = Some w" and v: "map_of d k = Some v"
    have nk: "\<not> is_KExpr k"
    proof
      assume "is_KExpr k"
      with w v have "k \<in> set (expr_keys result) \<inter> set (expr_keys d)"
        by (simp add: expr_keys_member)
      with disj show False by simp
    qed
    from Cons.prems(2) w nk have "\<not> is_StructList w" by (auto simp: typed_def)
    moreover from d(2) v nk have "\<not> is_StructList v" by (auto simp: typed_def)
    ultimately show "\<exists>a b. w = ExprSet a \<and> v = ExprSet b"
      by (auto dest!: not_StructList)
  qed
  then obtain r1 where r1: "merge_keys result d = Inr r1" by blast
  from merge_keys_distinct [OF Cons.prems(1) r1] have a: "distinct (map fst r1)" .
  from merge_keys_typed [OF d(1) Cons.prems(2) d(2) r1] have b: "typed r1" .
  have sub: "set (expr_keys r1) \<subseteq> set (expr_keys result) \<union> set (expr_keys d)"
  proof
    fix k assume "k \<in> set (expr_keys r1)"
    then have "is_KExpr k" "map_of r1 k \<noteq> None" by (simp_all add: expr_keys_member)
    with merge_keys_None [OF d(1) r1, of k]
    show "k \<in> set (expr_keys result) \<union> set (expr_keys d)"
      by (auto simp: expr_keys_member)
  qed
  from a have "distinct (expr_keys r1)" by (simp add: expr_keys_def distinct_map_filter)
  moreover from sub disj2 disj3 have "set (expr_keys r1) \<inter> set (concat (map expr_keys ds)) = {}"
    by blast
  ultimately have c: "distinct (expr_keys r1 @ concat (map expr_keys ds))"
    using dc by simp
  from Cons.IH [OF a b ds c] obtain r where "merge_terms r1 (map Inr ds) = Inr r" by blast
  with r1 show ?case by simp
qed

text \<open>
  Where no expression key occurs in the structures of two terms, the merge of the
  \<^verbatim>\<open>Add\<close> branch returns, and the structure of the Sum is the key-wise merge of
  the terms' structures: its keys are the keys of the terms; for every key its value
  set is the union of that key's value sets over the terms; and a list held under an
  expression key is carried over.
\<close>

theorem contraction_structure_Add:
  assumes "map get_contraction_structure args = map Inr ds"
    and "distinct (concat (map expr_keys ds))"
  shows "\<exists>r. get_contraction_structure (Add args) = Inr r \<and>
     fst ` set r = (\<Union>d\<in>set ds. fst ` set d) \<and>
     (\<forall>k. value_set r k = (\<Union>d\<in>set ds. value_set d k)) \<and>
     (\<forall>d\<in>set ds. \<forall>k l. map_of d k = Some (StructList l) \<longrightarrow>
        map_of r k = Some (StructList l))"
proof -
  have wf: "\<forall>x\<in>set ds. distinct (map fst x) \<and> typed x"
  proof
    fix x assume "x \<in> set ds"
    from map_eq_map_Inr_member [OF assms(1) this] obtain t where
      "get_contraction_structure t = Inr x" by blast
    then show "distinct (map fst x) \<and> typed x" by (rule contraction_structure_wf)
  qed
  then have dist: "\<forall>d\<in>set ds. distinct (map fst d)" by blast
  have e: "distinct (map fst ([] :: 'a contraction))" "typed ([] :: 'a contraction)"
    by (simp_all add: typed_def)
  from assms(2) have "distinct (expr_keys ([] :: 'a contraction) @ concat (map expr_keys ds))"
    by (simp add: expr_keys_def)
  from merge_terms_succeeds [OF e wf this] obtain r where
    r: "merge_terms [] (map Inr ds) = Inr r" by blast
  with assms(1) have g: "get_contraction_structure (Add args) = Inr r" by simp
  note res = merge_terms_result [OF dist r]
  have keys: "fst ` set r = (\<Union>d\<in>set ds. fst ` set d)"
  proof (rule set_eqI)
    fix k
    from res [of k] have "map_of r k = None \<longleftrightarrow> (\<forall>d\<in>set ds. map_of d k = None)" by simp
    then have "k \<notin> fst ` set r \<longleftrightarrow> (\<forall>d\<in>set ds. k \<notin> fst ` set d)"
      by (simp add: map_of_eq_None_iff)
    then show "k \<in> fst ` set r \<longleftrightarrow> k \<in> (\<Union>d\<in>set ds. fst ` set d)"
      by blast
  qed
  have vals: "\<forall>k. value_set r k = (\<Union>d\<in>set ds. value_set d k)"
  proof
    fix k
    from res [of k] show "value_set r k = (\<Union>d\<in>set ds. value_set d k)"
      by (simp add: value_set_def)
  qed
  have lists: "\<forall>d\<in>set ds. \<forall>k l. map_of d k = Some (StructList l) \<longrightarrow>
        map_of r k = Some (StructList l)"
  proof (intro ballI allI impI)
    fix d k l
    assume "d \<in> set ds" "map_of d k = Some (StructList l)"
    then have "\<exists>d\<in>set ds. map_of d k = Some (StructList l)" by (rule bexI [rotated])
    with res [of k l] show "map_of r k = Some (StructList l)" by simp
  qed
  from g keys vals lists show ?thesis by (intro exI [of _ r] conjI)
qed

theorem contraction_structure_Add_witness:
  "map get_contraction_structure
     [Mul [Indexed ''x'' [''i''], Indexed ''y'' [''i'']], Indexed ''A'' [''j'', ''j''],
      Mul [Indexed ''z'' [''i''], Indexed ''w'' [''i'']]] =
   map Inr
     [[(KTuple [''i''], ExprSet {Mul [Indexed ''x'' [''i''], Indexed ''y'' [''i'']]})],
      [(KTuple [''j''], ExprSet {Indexed ''A'' [''j'', ''j'']})],
      [(KTuple [''i''], ExprSet {Mul [Indexed ''z'' [''i''], Indexed ''w'' [''i'']]})]] \<and>
   get_contraction_structure
     (Add [Mul [Indexed ''x'' [''i''], Indexed ''y'' [''i'']], Indexed ''A'' [''j'', ''j''],
           Mul [Indexed ''z'' [''i''], Indexed ''w'' [''i'']]]) =
   Inr [(KTuple [''i''],
         ExprSet {Mul [Indexed ''x'' [''i''], Indexed ''y'' [''i'']],
                  Mul [Indexed ''z'' [''i''], Indexed ''w'' [''i'']]}),
        (KTuple [''j''], ExprSet {Indexed ''A'' [''j'', ''j'']})]"
proof -
  have m: "map get_contraction_structure
     [Mul [Indexed ''x'' [''i''], Indexed ''y'' [''i'']], Indexed ''A'' [''j'', ''j''],
      Mul [Indexed ''z'' [''i''], Indexed ''w'' [''i'']]] =
   map Inr
     [[(KTuple [''i''], ExprSet {Mul [Indexed ''x'' [''i''], Indexed ''y'' [''i'']]})],
      [(KTuple [''j''], ExprSet {Indexed ''A'' [''j'', ''j'']})],
      [(KTuple [''i''], ExprSet {Mul [Indexed ''z'' [''i''], Indexed ''w'' [''i'']]})]]"
    by (simp add: remove_repeated_def merge_symmetry_def key_or_None_def)
  have d: "distinct (concat (map expr_keys
     [[(KTuple [''i''], ExprSet {Mul [Indexed ''x'' [''i''], Indexed ''y'' [''i'']]})],
      [(KTuple [''j''], ExprSet {Indexed ''A'' [''j'', ''j'']})],
      [(KTuple [''i''], ExprSet {Mul [Indexed ''z'' [''i''], Indexed ''w'' [''i'']]})]]))"
    by (simp add: expr_keys_def)
  from contraction_structure_Add [OF m d] obtain r where
    r: "get_contraction_structure
     (Add [Mul [Indexed ''x'' [''i''], Indexed ''y'' [''i'']], Indexed ''A'' [''j'', ''j''],
           Mul [Indexed ''z'' [''i''], Indexed ''w'' [''i'']]]) = Inr r"
    by (elim exE conjE)
  have "get_contraction_structure
     (Add [Mul [Indexed ''x'' [''i''], Indexed ''y'' [''i'']], Indexed ''A'' [''j'', ''j''],
           Mul [Indexed ''z'' [''i''], Indexed ''w'' [''i'']]]) =
   Inr [(KTuple [''i''],
         ExprSet {Mul [Indexed ''x'' [''i''], Indexed ''y'' [''i'']],
                  Mul [Indexed ''z'' [''i''], Indexed ''w'' [''i'']]}),
        (KTuple [''j''], ExprSet {Indexed ''A'' [''j'', ''j'']})]"
    using r by (auto simp add: remove_repeated_def merge_symmetry_def key_or_None_def)
  with m show ?thesis by (intro conjI)
qed

text \<open>
  C4. For a Sum node whose terms each have a contraction structure, the structure of
  the Sum is to be the key-wise merge of the terms' structures, every value set the
  union of that key's value sets. The code does not return one for the unevaluated
  sum \<^verbatim>\<open>Add(m, m, evaluate=False)\<close> with \<^verbatim>\<open>m = x[i]*(y[i] + z[i])\<close>: each of the
  two terms has a structure, with the list of the inner sum under the key \<^verbatim>\<open>m\<close>,
  and merging the second into the first applies \<^verbatim>\<open>|=\<close> to two lists, a
  \<^verbatim>\<open>TypeError\<close>.
\<close>

theorem contraction_structure_Add_TypeError:
  "map get_contraction_structure
     [Mul [Indexed ''x'' [''i''], Add [Indexed ''y'' [''i''], Indexed ''z'' [''i'']]],
      Mul [Indexed ''x'' [''i''], Add [Indexed ''y'' [''i''], Indexed ''z'' [''i'']]]] =
   map Inr
     [[(KTuple [''i''],
        ExprSet {Mul [Indexed ''x'' [''i''], Add [Indexed ''y'' [''i''], Indexed ''z'' [''i'']]]}),
       (KExpr (Mul [Indexed ''x'' [''i''], Add [Indexed ''y'' [''i''], Indexed ''z'' [''i'']]]),
        StructList [[(KNone, ExprSet {Indexed ''y'' [''i''], Indexed ''z'' [''i'']})]])],
      [(KTuple [''i''],
        ExprSet {Mul [Indexed ''x'' [''i''], Add [Indexed ''y'' [''i''], Indexed ''z'' [''i'']]]}),
       (KExpr (Mul [Indexed ''x'' [''i''], Add [Indexed ''y'' [''i''], Indexed ''z'' [''i'']]]),
        StructList [[(KNone, ExprSet {Indexed ''y'' [''i''], Indexed ''z'' [''i'']})]])]] \<and>
   get_contraction_structure
     (Add [Mul [Indexed ''x'' [''i''], Add [Indexed ''y'' [''i''], Indexed ''z'' [''i'']]],
           Mul [Indexed ''x'' [''i''], Add [Indexed ''y'' [''i''], Indexed ''z'' [''i'']]]]) =
   Inl TypeError"
  by (simp add: remove_repeated_def merge_symmetry_def key_or_None_def insert_commute)

end
